theory Spec2Isabelle
  imports Main
begin

section \<open>JavaScript strings\<close>

text \<open>
  A JavaScript string is a sequence of UTF-16 code units.  A code unit is modelled as a
  natural number (below 65536 in every real string); ASCII literals of the source are
  written with \<open>str\<close>.
\<close>

type_synonym jschar = nat
type_synonym jsstring = "jschar list"

definition str :: "string \<Rightarrow> jsstring" where
  "str s = map of_char s"

text \<open>
  \<open>String.prototype.replace\<close> with a global regular expression.  The matcher \<open>m\<close>
  stands for the regular expression: applied to the rest of the subject at the current
  position it returns the length of the match that starts there, or \<open>None\<close>.  The scan
  goes from left to right; a non-empty match is replaced and the scan goes on behind it,
  an empty match inserts the replacement and steps over one code unit.
\<close>

fun replace_all :: "(jsstring \<Rightarrow> nat option) \<Rightarrow> jsstring \<Rightarrow> jsstring \<Rightarrow> jsstring" where
  "replace_all m rep [] = (case m [] of None \<Rightarrow> [] | Some _ \<Rightarrow> rep)"
| "replace_all m rep (c # cs) =
     (case m (c # cs) of
        None \<Rightarrow> c # replace_all m rep cs
      | Some 0 \<Rightarrow> rep @ c # replace_all m rep cs
      | Some (Suc k) \<Rightarrow> rep @ replace_all m rep (drop k cs))"

declare replace_all.simps(2) [simp del]

text \<open>\<open>String.prototype.trim\<close> and the class \<^verbatim>\<open>\s\<close>: white space and line terminators.\<close>

definition isWhiteSpace :: "jschar \<Rightarrow> bool" where
  "isWhiteSpace c =
     ((9 \<le> c \<and> c \<le> 13) \<or> c = 32 \<or> c = 160 \<or> c = 5760 \<or> (8192 \<le> c \<and> c \<le> 8202) \<or>
      c = 8232 \<or> c = 8233 \<or> c = 8239 \<or> c = 8287 \<or> c = 12288 \<or> c = 65279)"

definition trim :: "jsstring \<Rightarrow> jsstring" where
  "trim s = rev (dropWhile isWhiteSpace (rev (dropWhile isWhiteSpace s)))"

text \<open>\<open>s.split('\n')\<close>: the empty string gives one empty fragment.\<close>

fun split_on :: "jschar \<Rightarrow> jsstring \<Rightarrow> jsstring list" where
  "split_on d [] = [[]]"
| "split_on d (c # cs) =
     (if c = d then [] # split_on d cs
      else (case split_on d cs of l # ls \<Rightarrow> (c # l) # ls | [] \<Rightarrow> [[c]]))"

definition startsWith :: "jsstring \<Rightarrow> jsstring \<Rightarrow> bool" where
  "startsWith s p = (take (length p) s = p)"

definition endsWith :: "jsstring \<Rightarrow> jsstring \<Rightarrow> bool" where
  "endsWith s p = (length p \<le> length s \<and> drop (length s - length p) s = p)"

fun includes_str :: "jsstring \<Rightarrow> jsstring \<Rightarrow> bool" where
  "includes_str [] p = (p = [])"
| "includes_str (c # cs) p = (startsWith (c # cs) p \<or> includes_str cs p)"

text \<open>\<open>toLowerCase\<close> on the ASCII letters.  The source only searches the result for the
  ASCII word \<open>password\<close>, and no code unit outside ASCII lower-cases to one of its letters.\<close>

definition toLowerCase :: "jsstring \<Rightarrow> jsstring" where
  "toLowerCase s = map (\<lambda>c. if 65 \<le> c \<and> c \<le> 90 then c + 32 else c) s"

section \<open>The output sanitizer: \<open>Terminal.stripAnsiCodes\<close>\<close>

text \<open>Character classes of the regular expressions.\<close>

definition isDigit :: "jschar \<Rightarrow> bool" where
  "isDigit c = (48 \<le> c \<and> c \<le> 57)"

definition isParam :: "jschar \<Rightarrow> bool" where
  \<comment> \<open>\<^verbatim>\<open>[0-9;]\<close>\<close>
  "isParam c = (isDigit c \<or> c = 59)"

definition isAlpha :: "jschar \<Rightarrow> bool" where
  \<comment> \<open>\<^verbatim>\<open>[a-zA-Z]\<close>\<close>
  "isAlpha c = ((97 \<le> c \<and> c \<le> 122) \<or> (65 \<le> c \<and> c \<le> 90))"

definition isBsDel :: "jschar \<Rightarrow> bool" where
  \<comment> \<open>\<^verbatim>\<open>[\x08\x7f]\<close>\<close>
  "isBsDel c = (c = 8 \<or> c = 127)"

definition isOtherControl :: "jschar \<Rightarrow> bool" where
  \<comment> \<open>\<^verbatim>\<open>[\x00-\x08\x0B-\x0C\x0E-\x1F\x7F]\<close>\<close>
  "isOtherControl c = (c \<le> 8 \<or> (11 \<le> c \<and> c \<le> 12) \<or> (14 \<le> c \<and> c \<le> 31) \<or> c = 127)"

definition isSpaceTab :: "jschar \<Rightarrow> bool" where
  \<comment> \<open>\<^verbatim>\<open>[ \t]\<close>\<close>
  "isSpaceTab c = (c = 32 \<or> c = 9)"

definition isLineTerminator :: "jschar \<Rightarrow> bool" where
  \<comment> \<open>LF, CR, U+2028, U+2029: where \<^verbatim>\<open>$\<close> matches under the \<^verbatim>\<open>m\<close> flag, and what \<^verbatim>\<open>.\<close> refuses\<close>
  "isLineTerminator c = (c = 10 \<or> c = 13 \<or> c = 8232 \<or> c = 8233)"

text \<open>\<^verbatim>\<open>/\x1b\[[0-9;]*[a-zA-Z]/\<close>: the parameter run is greedy and holds no letter, so the
  expression matches exactly when a letter follows the longest run.\<close>

definition m_csi :: "jsstring \<Rightarrow> nat option" where
  "m_csi s =
     (case s of
        e # b # rest \<Rightarrow>
          if e = 27 \<and> b = 91 then
            (case dropWhile isParam rest of
               l # _ \<Rightarrow> if isAlpha l then Some (3 + length (takeWhile isParam rest)) else None
             | [] \<Rightarrow> None)
          else None
      | _ \<Rightarrow> None)"

text \<open>\<^verbatim>\<open>/\x1b\][0-9]*;[^\x07]*\x07/\<close>: digits, a semicolon, then everything up to the first BEL.\<close>

definition m_osc :: "jsstring \<Rightarrow> nat option" where
  "m_osc s =
     (case s of
        e # b # rest \<Rightarrow>
          if e = 27 \<and> b = 93 then
            (case dropWhile isDigit rest of
               sc # rest2 \<Rightarrow>
                 if sc = 59 then
                   (case dropWhile (\<lambda>c. c \<noteq> 7) rest2 of
                      bel # _ \<Rightarrow>
                        Some (4 + length (takeWhile isDigit rest)
                                + length (takeWhile (\<lambda>c. c \<noteq> 7) rest2))
                    | [] \<Rightarrow> None)
                 else None
             | [] \<Rightarrow> None)
          else None
      | _ \<Rightarrow> None)"

text \<open>\<^verbatim>\<open>/\x1b[=>]/\<close>\<close>

definition m_esc2 :: "jsstring \<Rightarrow> nat option" where
  "m_esc2 s =
     (case s of
        e # b # _ \<Rightarrow> if e = 27 \<and> (b = 61 \<or> b = 62) then Some 2 else None
      | _ \<Rightarrow> None)"

text \<open>A single code unit of a class, as in \<^verbatim>\<open>/[\x08\x7f]/\<close>, \<^verbatim>\<open>/\r/\<close>, \<^verbatim>\<open>/\x07/\<close>.\<close>

definition m_class :: "(jschar \<Rightarrow> bool) \<Rightarrow> jsstring \<Rightarrow> nat option" where
  "m_class P s = (case s of c # _ \<Rightarrow> if P c then Some 1 else None | [] \<Rightarrow> None)"

text \<open>\<^verbatim>\<open>/\r\n/\<close>\<close>

definition m_crlf :: "jsstring \<Rightarrow> nat option" where
  "m_crlf s =
     (case s of a # b # _ \<Rightarrow> if a = 13 \<and> b = 10 then Some 2 else None | _ \<Rightarrow> None)"

text \<open>\<^verbatim>\<open>/[ \t]+/\<close>: the longest run of spaces and tabs, if it is not empty.\<close>

definition m_spaces :: "jsstring \<Rightarrow> nat option" where
  "m_spaces s =
     (let n = length (takeWhile isSpaceTab s) in if n = 0 then None else Some n)"

text \<open>\<^verbatim>\<open>/ +$/m\<close>: the longest run of spaces, if the subject ends or a line terminator
  stands behind it (a shorter run is followed by a space, so backtracking finds nothing).\<close>

definition m_trailing :: "jsstring \<Rightarrow> nat option" where
  "m_trailing s =
     (let n = length (takeWhile (\<lambda>c. c = 32) s) in
      if n = 0 then None
      else (case drop n s of
              [] \<Rightarrow> Some n
            | c # _ \<Rightarrow> if isLineTerminator c then Some n else None))"

definition stripAnsiCodes :: "jsstring \<Rightarrow> jsstring" where
  "stripAnsiCodes text =
     (let t1 = replace_all m_csi [] text;
          t2 = replace_all m_osc [] t1;
          t3 = replace_all m_esc2 [] t2;
          t4 = replace_all (m_class isBsDel) [] t3;
          t5 = replace_all m_crlf [10] t4;
          t6 = replace_all (m_class (\<lambda>c. c = 13)) [] t5;
          t7 = replace_all (m_class (\<lambda>c. c = 7)) [] t6;
          t8 = replace_all (m_class isOtherControl) [] t7;
          t9 = replace_all m_spaces [32] t8
      in replace_all m_trailing [] t9)"

text \<open>An ASCII control character: a code unit below 32, or DEL.\<close>

definition isControl :: "jschar \<Rightarrow> bool" where
  "isControl c = (c < 32 \<or> c = 127)"

text \<open>No two spaces side by side.\<close>

fun single_spaced :: "jsstring \<Rightarrow> bool" where
  "single_spaced (a # b # r) = (\<not> (a = 32 \<and> b = 32) \<and> single_spaced (b # r))"
| "single_spaced _ = True"

text \<open>No run of spaces at the end of a line or of the text.\<close>

fun no_trailing :: "jsstring \<Rightarrow> bool" where
  "no_trailing [] = True"
| "no_trailing (c # cs) = (m_trailing (c # cs) = None \<and> no_trailing cs)"


section \<open>The line classifier\<close>

definition isWordChar :: "jschar \<Rightarrow> bool" where
  \<comment> \<open>\<^verbatim>\<open>\w\<close>\<close>
  "isWordChar c = (isAlpha c \<or> isDigit c \<or> c = 95)"

definition isPromptChar :: "jschar \<Rightarrow> bool" where
  \<comment> \<open>\<^verbatim>\<open>[$#]\<close>\<close>
  "isPromptChar c = (c = 36 \<or> c = 35)"

text \<open>\<^verbatim>\<open>/[@$#]\s*$/.test(line)\<close>: at some position stands one of the three characters and
  only white space follows up to the end.\<close>

fun re_prompt_end :: "jsstring \<Rightarrow> bool" where
  "re_prompt_end [] = False"
| "re_prompt_end (c # cs) =
     (((c = 64 \<or> isPromptChar c) \<and> list_all isWhiteSpace cs) \<or> re_prompt_end cs)"

text \<open>\<^verbatim>\<open>.*[$#]\s*$\<close> from the current position: \<^verbatim>\<open>.\<close> refuses line terminators.\<close>

fun re_dot_tail :: "jsstring \<Rightarrow> bool" where
  "re_dot_tail [] = False"
| "re_dot_tail (c # cs) =
     ((isPromptChar c \<and> list_all isWhiteSpace cs) \<or> (\<not> isLineTerminator c \<and> re_dot_tail cs))"

text \<open>\<^verbatim>\<open>/^\w+@\w+.*[$#]\s*$/.test(line)\<close>: the first run of word characters is the longest
  one (no word character is \<^verbatim>\<open>@\<close>), and of the second run one character is enough, the
  rest being covered by \<^verbatim>\<open>.*\<close>.\<close>

definition re_user_host :: "jsstring \<Rightarrow> bool" where
  "re_user_host line =
     (takeWhile isWordChar line \<noteq> [] \<and>
      (case dropWhile isWordChar line of
         a # h # rest \<Rightarrow> a = 64 \<and> isWordChar h \<and> re_dot_tail rest
       | _ \<Rightarrow> False))"

definition host_tag :: jsstring where
  "host_tag = str ''web-h-063@web-h-063''"

definition isPromptLine :: "jsstring \<Rightarrow> bool" where
  "isPromptLine line =
     (re_prompt_end line \<or> re_user_host line \<or> includes_str line host_tag)"

definition isPasswordPrompt :: "jsstring \<Rightarrow> bool" where
  "isPasswordPrompt line =
     (includes_str (toLowerCase line) (str ''password'') \<or>
      includes_str line (str ''[sudo]'') \<or>
      includes_str line (str ''Password:''))"

text \<open>\<^verbatim>\<open>line.match(/:([^$#]+)[$#]/)\<close>, the captured group of the first match: the group is
  the longest run without \<^verbatim>\<open>$\<close> and \<^verbatim>\<open>#\<close> behind a colon; it must not be empty and one
  of the two characters must stand behind it.\<close>

fun match_dir :: "jsstring \<Rightarrow> jsstring option" where
  "match_dir [] = None"
| "match_dir (c # cs) =
     (if c = 58 \<and> takeWhile (\<lambda>x. \<not> isPromptChar x) cs \<noteq> [] \<and>
         dropWhile (\<lambda>x. \<not> isPromptChar x) cs \<noteq> []
      then Some (takeWhile (\<lambda>x. \<not> isPromptChar x) cs)
      else match_dir cs)"

definition formatPrompt :: "jsstring \<Rightarrow> jsstring" where
  "formatPrompt line =
     (if includes_str line host_tag then
        (case match_dir line of
           Some g \<Rightarrow>
             (let dir = replace_all (m_class (\<lambda>c. c = 126)) [126] g;
                  symbol = (if includes_str line (str ''#'') then str ''#'' else str ''$'')
              in dir @ symbol)
         | None \<Rightarrow> line)
      else line)"

section \<open>The display\<close>

text \<open>
  The output element is the list of its child lines, oldest first.  A line has its class
  and either text or, for an empty raw line, the half-height spacer
  (\<^verbatim>\<open>innerHTML = '&nbsp;'\<close>, \<^verbatim>\<open>height = '0.5em'\<close>).
\<close>

datatype css_class =
  OutputText | CommandLine | SuccessText | ErrorText | WarningText
  | RawOutput | ShellPrompt | PasswordPrompt | UserInput

datatype line_body = TextContent jsstring | MinimalSpacer

type_synonym output_line = "css_class \<times> line_body"

definition addFormattedOutput :: "jsstring \<Rightarrow> css_class \<Rightarrow> output_line list \<Rightarrow> output_line list" where
  "addFormattedOutput text className out =
     (if className = RawOutput then
        (let cleanText = trim text in
         if cleanText \<noteq> [] then out @ [(className, TextContent cleanText)]
         else out @ [(className, MinimalSpacer)])
      else out @ [(className, TextContent text)])"

definition processTerminalLine :: "jsstring \<Rightarrow> bool \<Rightarrow> output_line list \<Rightarrow> output_line list" where
  "processTerminalLine line isLastLine out =
     (let cleanLine = trim line in
      if cleanLine = [] \<and> \<not> isLastLine then out
      else if isPromptLine cleanLine then addFormattedOutput (formatPrompt cleanLine) ShellPrompt out
      else if isPasswordPrompt cleanLine then addFormattedOutput cleanLine PasswordPrompt out
      else if cleanLine \<noteq> [] then addFormattedOutput cleanLine RawOutput out
      else out)"

text \<open>The body of the loop of \<open>addRawOutput\<close> for the fragment \<open>line\<close> at index \<open>i\<close> of \<open>n\<close>
  fragments.\<close>

definition addRawOutput_line ::
  "jsstring \<Rightarrow> nat \<Rightarrow> nat \<Rightarrow> jsstring \<Rightarrow> output_line list \<Rightarrow> output_line list" where
  "addRawOutput_line text n i line out =
     (if trim line = [] \<and> Suc i \<noteq> n then addFormattedOutput [] RawOutput out
      else processTerminalLine line (Suc i = n \<and> \<not> endsWith text [10]) out)"

fun addRawOutput_loop ::
  "jsstring \<Rightarrow> nat \<Rightarrow> nat \<Rightarrow> jsstring list \<Rightarrow> output_line list \<Rightarrow> output_line list" where
  "addRawOutput_loop text n i [] out = out"
| "addRawOutput_loop text n i (line # rest) out =
     addRawOutput_loop text n (Suc i) rest (addRawOutput_line text n i line out)"

definition addRawOutput :: "jsstring \<Rightarrow> output_line list \<Rightarrow> output_line list" where
  "addRawOutput text out =
     (let cleanText = stripAnsiCodes text;
          lines = split_on 10 cleanText
      in addRawOutput_loop text (length lines) 0 lines out)"

section \<open>The terminal\<close>

datatype client_message =
  CommandMsg jsstring | InputMsg jsstring | ResizeMsg nat nat

datatype msg_type = Prompt | Output | ShellOutput | OtherType

text \<open>A parsed server message: its type and the properties the client reads, \<open>None\<close> for a
  property that the object does not have.\<close>

record message =
  mtype :: msg_type
  m_cwd :: "jsstring option"
  m_message :: "jsstring option"
  m_output :: "jsstring option"
  m_success :: "bool option"
  m_interactive :: "bool option"
  m_suggest_interactive :: "bool option"
  m_clear_screen :: "bool option"
  m_command :: "jsstring option"

text \<open>
  The fields of \<open>Terminal\<close> and of the page that the handlers read back: the history and
  its cursor, the directory (\<open>None\<close> when a message without \<open>cwd\<close> has made it
  \<open>undefined\<close>), the mode, the value of the input element, the text of the prompt
  element, the children of the output element, whether the socket is open, and the
  messages handed to \<open>socket.send\<close>, oldest first.  What a handler only writes to the
  page and never reads (status bar, directory label, placeholder, mode indicator, focus
  and scroll position) is left out.
\<close>

record terminal =
  commandHistory :: "jsstring list"
  historyIndex :: int
  currentDirectory :: "jsstring option"
  interactiveMode :: bool
  inputValue :: jsstring
  promptText :: jsstring
  outputLines :: "output_line list"
  socketOpen :: bool
  sent :: "client_message list"

text \<open>The state the constructor leaves; the text of the prompt element comes from the page.\<close>

definition initial :: "jsstring \<Rightarrow> terminal" where
  "initial prompt0 =
     \<lparr> commandHistory = [], historyIndex = - 1, currentDirectory = Some [],
       interactiveMode = False, inputValue = [], promptText = prompt0, outputLines = [],
       socketOpen = False, sent = [] \<rparr>"

text \<open>
  The global \<open>process\<close> of the environment the script runs in: not declared (a browser),
  or declared with \<open>process.env.USER\<close> set or not.  A handler that throws stops where it
  is; what it has written so far stays.
\<close>

datatype process_global = ProcessUndefined | ProcessEnvUser "jsstring option"

datatype js_error = ReferenceError

type_synonym outcome = "js_error option \<times> terminal"

definition and_then :: "outcome \<Rightarrow> (terminal \<Rightarrow> outcome) \<Rightarrow> outcome" where
  "and_then r f = (case r of (None, s) \<Rightarrow> f s | (Some e, s) \<Rightarrow> (Some e, s))"

text \<open>A value in a template literal and a value assigned to \<open>textContent\<close>.\<close>

definition template :: "jsstring option \<Rightarrow> jsstring" where
  "template v = (case v of Some s \<Rightarrow> s | None \<Rightarrow> str ''undefined'')"

definition text_of :: "jsstring option \<Rightarrow> jsstring" where
  "text_of v = (case v of Some s \<Rightarrow> s | None \<Rightarrow> [])"

definition join :: "jschar \<Rightarrow> jsstring list \<Rightarrow> jsstring" where
  "join d parts = (case parts of [] \<Rightarrow> [] | p # ps \<Rightarrow> p @ concat (map (\<lambda>q. d # q) ps))"

definition getShortPath :: "process_global \<Rightarrow> jsstring option \<Rightarrow> js_error + jsstring" where
  "getShortPath process path =
     (case path of
        None \<Rightarrow> Inr (str ''~'')
      | Some p \<Rightarrow>
          if p = [] then Inr (str ''~'')
          else
            (case process of
               ProcessUndefined \<Rightarrow> Inl ReferenceError
             | ProcessEnvUser user \<Rightarrow>
                 (let home = str ''/home/'' @
                        (case user of
                           Some u \<Rightarrow> if u \<noteq> [] then u else str ''user''
                         | None \<Rightarrow> str ''user'');
                      parts = split_on 47 p
                  in if startsWith p home then Inr (str ''~'' @ drop (length home) p)
                     else if length parts > 3
                       then Inr (str ''.../'' @ join 47 (drop (length parts - 2) parts))
                     else Inr p)))"

definition addOutput :: "jsstring \<Rightarrow> css_class \<Rightarrow> terminal \<Rightarrow> terminal" where
  "addOutput text className s = s\<lparr>outputLines := addFormattedOutput text className (outputLines s)\<rparr>"

definition updatePrompt :: "process_global \<Rightarrow> terminal \<Rightarrow> outcome" where
  "updatePrompt process s =
     (if \<not> interactiveMode s then
        (case getShortPath process (currentDirectory s) of
           Inl e \<Rightarrow> (Some e, s)
         | Inr shortPath \<Rightarrow> (None, s\<lparr>promptText := shortPath @ str ''$''\<rparr>))
      else (None, s))"

definition getPromptText :: "terminal \<Rightarrow> jsstring" where
  "getPromptText s = promptText s @ str '' ''"

definition updatePromptForMode :: "process_global \<Rightarrow> terminal \<Rightarrow> outcome" where
  "updatePromptForMode process s =
     (if interactiveMode s then (None, s\<lparr>promptText := str ''>''\<rparr>)
      else updatePrompt process s)"

definition clear :: "terminal \<Rightarrow> terminal" where
  "clear s = s\<lparr>outputLines := []\<rparr>"

definition executeCommand :: "terminal \<Rightarrow> terminal" where
  "executeCommand s =
     (let command = trim (inputValue s) in
      if command = [] then s
      else
        (let s1 = (if \<not> interactiveMode s then
                     addOutput (getPromptText s @ command) CommandLine
                       (s\<lparr>commandHistory := commandHistory s @ [command],
                          historyIndex := int (length (commandHistory s @ [command]))\<rparr>)
                   else s);
             s2 = (if socketOpen s1 then s1\<lparr>sent := sent s1 @ [CommandMsg command]\<rparr>
                   else addOutput (str ''Not connected to server'') ErrorText s1)
         in s2\<lparr>inputValue := []\<rparr>))"

definition sendInputToShell :: "terminal \<Rightarrow> terminal" where
  "sendInputToShell s =
     (let input = inputValue s;
          s1 = (if trim input \<noteq> [] then
                  s\<lparr>outputLines := addFormattedOutput input UserInput (outputLines s)\<rparr>
                else s);
          s2 = (if socketOpen s1 then s1\<lparr>sent := sent s1 @ [InputMsg (input @ [10])]\<rparr>
                else s1)
      in s2\<lparr>inputValue := []\<rparr>)"

text \<open>The rectangle of the output element is given by its width and height in whole pixels.\<close>

definition sendTerminalResize :: "nat \<Rightarrow> nat \<Rightarrow> terminal \<Rightarrow> terminal" where
  "sendTerminalResize width height s =
     (if socketOpen s then s\<lparr>sent := sent s @ [ResizeMsg (width div 8) (height div 16)]\<rparr>
      else s)"

text \<open>\<open>this.commandHistory[i] || ''\<close>: an index outside the array and an empty entry both
  give the empty string.\<close>

definition history_entry :: "jsstring list \<Rightarrow> int \<Rightarrow> jsstring" where
  "history_entry h i = (if 0 \<le> i \<and> i < int (length h) then h ! nat i else [])"

definition navigateHistory :: "int \<Rightarrow> terminal \<Rightarrow> terminal" where
  "navigateHistory direction s =
     (if length (commandHistory s) = 0 then s
      else
        (let i = historyIndex s + direction in
         if i < 0 then
           s\<lparr>historyIndex := 0, inputValue := history_entry (commandHistory s) 0\<rparr>
         else if i \<ge> int (length (commandHistory s)) then
           s\<lparr>historyIndex := int (length (commandHistory s)), inputValue := []\<rparr>
         else s\<lparr>historyIndex := i, inputValue := history_entry (commandHistory s) i\<rparr>))"

text \<open>The \<open>output\<close> case of \<open>handleMessage\<close> in its three steps: the mode flag, the screen
  and the text, the directory.\<close>

definition handleModeFlag :: "process_global \<Rightarrow> message \<Rightarrow> terminal \<Rightarrow> outcome" where
  "handleModeFlag process m s =
     (case m_interactive m of
        Some b \<Rightarrow> updatePromptForMode process (s\<lparr>interactiveMode := b\<rparr>)
      | None \<Rightarrow> (None, s))"

definition handleScreen :: "message \<Rightarrow> terminal \<Rightarrow> terminal" where
  "handleScreen m s =
     (if m_clear_screen m = Some True then
        (let s1 = clear s in
         if m_command m \<noteq> Some (str ''clear'')
         then addOutput (getPromptText s1 @ template (m_command m)) CommandLine s1
         else s1)
      else
        (case m_output m of
           Some text \<Rightarrow>
             if text \<noteq> [] then
               (let className = (if m_success m = Some True then OutputText else ErrorText);
                    className = (if m_suggest_interactive m = Some True then WarningText
                                 else className)
                in addOutput text className s)
             else s
         | None \<Rightarrow> s))"

definition handleCwd :: "process_global \<Rightarrow> message \<Rightarrow> terminal \<Rightarrow> outcome" where
  "handleCwd process m s =
     (case m_cwd m of
        Some cwd \<Rightarrow>
          if cwd \<noteq> [] then updatePrompt process (s\<lparr>currentDirectory := Some cwd\<rparr>)
          else (None, s)
      | None \<Rightarrow> (None, s))"

definition handleMessage :: "process_global \<Rightarrow> message \<Rightarrow> terminal \<Rightarrow> outcome" where
  "handleMessage process m s =
     (case mtype m of
        Prompt \<Rightarrow>
          and_then (updatePrompt process (s\<lparr>currentDirectory := m_cwd m\<rparr>))
            (\<lambda>s1. (None, addOutput (text_of (m_message m)) SuccessText s1))
      | Output \<Rightarrow>
          and_then (handleModeFlag process m s)
            (\<lambda>s1. handleCwd process m (handleScreen m s1))
      | ShellOutput \<Rightarrow>
          (case m_output m of
             Some text \<Rightarrow>
               if text \<noteq> [] then (None, s\<lparr>outputLines := addRawOutput text (outputLines s)\<rparr>)
               else (None, s)
           | None \<Rightarrow> (None, s))
      | OtherType \<Rightarrow> (None, s))"

datatype key = Enter | ArrowUp | ArrowDown | Tab | OtherKey

definition keydown :: "key \<Rightarrow> terminal \<Rightarrow> terminal" where
  "keydown k s =
     (if k = Enter then
        (if interactiveMode s then sendInputToShell s else executeCommand s)
      else if k = ArrowUp \<and> \<not> interactiveMode s then navigateHistory (- 1) s
      else if k = ArrowDown \<and> \<not> interactiveMode s then navigateHistory 1 s
      else s)"

text \<open>
  What can happen to the page: a key goes down in the input element, the user edits its
  value, the socket opens, delivers a message, closes or fails, the window is resized,
  the Clear button calls \<open>clearTerminal\<close>, the connection button calls
  \<open>toggleConnection\<close> (closing the socket or making a new one: neither is open).
\<close>

datatype event =
  KeyDown key
  | Typed jsstring
  | SocketOpened
  | SocketMessage message
  | SocketClosed
  | SocketErrored
  | WindowResize nat nat
  | ClearTerminal
  | ToggleConnection

definition step :: "process_global \<Rightarrow> terminal \<Rightarrow> event \<Rightarrow> outcome" where
  "step process s e =
     (case e of
        KeyDown k \<Rightarrow> (None, keydown k s)
      | Typed v \<Rightarrow> (None, s\<lparr>inputValue := v\<rparr>)
      | SocketOpened \<Rightarrow>
          (None, addOutput (str ''Connected to FastAPI Terminal'') SuccessText
                   (s\<lparr>socketOpen := True\<rparr>))
      | SocketMessage m \<Rightarrow> handleMessage process m s
      | SocketClosed \<Rightarrow>
          (None, addOutput (str ''Connection closed'') ErrorText (s\<lparr>socketOpen := False\<rparr>))
      | SocketErrored \<Rightarrow> (None, addOutput (str ''Connection error occurred'') ErrorText s)
      | WindowResize w h \<Rightarrow> (None, if interactiveMode s then sendTerminalResize w h s else s)
      | ClearTerminal \<Rightarrow> (None, clear s)
      | ToggleConnection \<Rightarrow> (None, s\<lparr>socketOpen := False\<rparr>))"

text \<open>The state after a sequence of events; a handler that threw leaves the state it had
  reached, and the next event finds it.\<close>

fun run :: "process_global \<Rightarrow> terminal \<Rightarrow> event list \<Rightarrow> terminal" where
  "run process s [] = s"
| "run process s (e # es) = run process (snd (step process s e)) es"

section \<open>Fixtures\<close>

text \<open>The prompt line of the classifier example, as it arrives.\<close>

definition user_host_line :: jsstring where
  "user_host_line = str ''user@host:~/project$ ''"

text \<open>Typing a command into the input element and pressing Enter.\<close>

definition type_command :: "string \<Rightarrow> event list" where
  "type_command c = [Typed (str c), KeyDown Enter]"

text \<open>The terminal after three commands have been submitted on a fresh page.\<close>

definition history_fixture :: terminal where
  "history_fixture =
     run ProcessUndefined (initial [])
       (type_command ''ls'' @ type_command ''pwd'' @ type_command ''cd /tmp'')"

text \<open>Server messages: an \<open>output\<close> message that carries only the mode flag, the greeting
  with a directory, and the answer to \<open>clear\<close>, with a mode flag or without.\<close>

definition mode_message :: "bool \<Rightarrow> message" where
  "mode_message b =
     \<lparr> mtype = Output, m_cwd = None, m_message = None, m_output = None, m_success = None,
       m_interactive = Some b, m_suggest_interactive = None, m_clear_screen = None,
       m_command = None \<rparr>"

definition welcome_message :: message where
  "welcome_message =
     \<lparr> mtype = Prompt, m_cwd = Some (str ''/tmp''), m_message = Some (str ''Welcome''),
       m_output = None, m_success = None, m_interactive = None,
       m_suggest_interactive = None, m_clear_screen = None, m_command = None \<rparr>"

definition clear_message :: "bool option \<Rightarrow> message" where
  "clear_message flag =
     \<lparr> mtype = Output, m_cwd = None, m_message = None, m_output = None, m_success = None,
       m_interactive = flag, m_suggest_interactive = None, m_clear_screen = Some True,
       m_command = Some (str ''clear'') \<rparr>"

text \<open>A connected terminal that the server has put into Interactive mode, with \<open>y\<close> typed.\<close>

definition interactive_fixture :: terminal where
  "interactive_fixture =
     run ProcessUndefined (initial [])
       [SocketOpened, SocketMessage (mode_message True), Typed (str ''y'')]"

text \<open>A connected terminal in a browser that has received the greeting.\<close>

definition greeted_fixture :: terminal where
  "greeted_fixture =
     run ProcessUndefined (initial []) [SocketOpened, SocketMessage welcome_message]"

section \<open>Properties of the sanitizer\<close>

lemmas replace_all_Cons = replace_all.simps(2)

lemma replace_all_set: "set (replace_all m rep s) \<subseteq> set s \<union> set rep"
proof (induction m rep s rule: replace_all.induct)
  case (1 m rep)
  then show ?case by (auto split: option.split)
next
  case (2 m rep c cs)
  show ?case
  proof (cases "m (c # cs)")
    case None
    with 2 show ?thesis by (auto simp: replace_all_Cons)
  next
    case (Some n)
    show ?thesis
    proof (cases n)
      case 0
      with Some 2 show ?thesis by (auto simp: replace_all_Cons)
    next
      case (Suc k)
      with Some 2 have "set (replace_all m rep (drop k cs)) \<subseteq> set (drop k cs) \<union> set rep"
        by simp
      moreover have "set (drop k cs) \<subseteq> set cs" by (rule set_drop_subset)
      ultimately show ?thesis using Some Suc by (auto simp: replace_all_Cons)
    qed
  qed
qed

lemma replace_all_class: "replace_all (m_class P) [] s = filter (\<lambda>c. \<not> P c) s"
  by (induction s) (simp_all add: m_class_def replace_all_Cons)

lemma replace_all_id:
  assumes "m [] = None" and "\<And>c cs. c \<in> set s \<Longrightarrow> m (c # cs) = None"
  shows "replace_all m rep s = s"
  using assms by (induction s) (simp_all add: replace_all_Cons)

lemma m_csi_head: "c \<noteq> 27 \<Longrightarrow> m_csi (c # cs) = None"
  by (simp add: m_csi_def split: list.split)
lemma m_osc_head: "c \<noteq> 27 \<Longrightarrow> m_osc (c # cs) = None"
  by (simp add: m_osc_def split: list.split)
lemma m_esc2_head: "c \<noteq> 27 \<Longrightarrow> m_esc2 (c # cs) = None"
  by (simp add: m_esc2_def split: list.split)
lemma m_crlf_head: "c \<noteq> 13 \<Longrightarrow> m_crlf (c # cs) = None"
  by (simp add: m_crlf_def split: list.split)

lemma m_Nil: "m_csi [] = None" "m_osc [] = None" "m_esc2 [] = None" "m_crlf [] = None"
  by (simp_all add: m_csi_def m_osc_def m_esc2_def m_crlf_def)

lemma m_spaces_Nil: "m_spaces [] = None" by (simp add: m_spaces_def)
lemma m_spaces_Cons: "m_spaces (c # cs) =
   (if isSpaceTab c then Some (Suc (length (takeWhile isSpaceTab cs))) else None)"
  by (simp add: m_spaces_def)

lemma m_trailing_Nil: "m_trailing [] = None" by (simp add: m_trailing_def)
lemma m_trailing_Cons: "m_trailing (c # cs) =
   (if c = 32 then
      (case dropWhile (\<lambda>c. c = 32) cs of
         [] \<Rightarrow> Some (Suc (length (takeWhile (\<lambda>c. c = 32) cs)))
       | d # _ \<Rightarrow> if isLineTerminator d then Some (Suc (length (takeWhile (\<lambda>c. c = 32) cs))) else None)
    else None)"
  by (simp add: m_trailing_def dropWhile_eq_drop [symmetric])

lemma drop_takeWhile: "drop (length (takeWhile P xs)) xs = dropWhile P xs"
  by (simp add: dropWhile_eq_drop)

subsection \<open>Collapsing runs of spaces and tabs\<close>

lemma collapse_no_tab: "9 \<notin> set (replace_all m_spaces [32] s)"
proof (induction m_spaces "[32::nat]" s rule: replace_all.induct)
  case 1
  then show ?case by (simp add: m_spaces_Nil)
next
  case (2 c cs)
  then show ?case
    by (auto simp: m_spaces_Cons isSpaceTab_def replace_all_Cons)
qed

lemma collapse_head:
  "\<not> isSpaceTab c \<Longrightarrow> replace_all m_spaces [32] (c # cs) = c # replace_all m_spaces [32] cs"
  by (simp add: m_spaces_Cons replace_all_Cons)

lemma single_spaced_Cons:
  "single_spaced (a # s) = ((s = [] \<or> \<not> (a = 32 \<and> hd s = 32)) \<and> single_spaced s)"
  by (cases s) auto

lemma collapse_after_run:
  "replace_all m_spaces [32] (dropWhile isSpaceTab cs) = [] \<or>
   hd (replace_all m_spaces [32] (dropWhile isSpaceTab cs)) \<noteq> 32"
proof (cases "dropWhile isSpaceTab cs")
  case Nil
  show ?thesis unfolding Nil by (simp add: m_spaces_Nil)
next
  case (Cons d ds)
  then have "\<not> isSpaceTab d" using hd_dropWhile [of isSpaceTab cs] by simp
  then show ?thesis unfolding Cons by (auto simp: collapse_head isSpaceTab_def)
qed

lemma collapse_single_spaced: "single_spaced (replace_all m_spaces [32] s)"
proof (induction m_spaces "[32::nat]" s rule: replace_all.induct)
  case 1
  then show ?case by (simp add: m_spaces_Nil)
next
  case (2 c cs)
  show ?case
  proof (cases "isSpaceTab c")
    case False
    then have "m_spaces (c # cs) = None" by (simp add: m_spaces_Cons)
    with 2 have "single_spaced (replace_all m_spaces [32] cs)" by simp
    moreover have "c \<noteq> 32" using False by (simp add: isSpaceTab_def)
    ultimately show ?thesis using False
      by (simp add: collapse_head single_spaced_Cons)
  next
    case True
    let ?k = "length (takeWhile isSpaceTab cs)"
    have m: "m_spaces (c # cs) = Some (Suc ?k)" using True by (simp add: m_spaces_Cons)
    with 2 have "single_spaced (replace_all m_spaces [32] (drop ?k cs))" by simp
    then have ih: "single_spaced (replace_all m_spaces [32] (dropWhile isSpaceTab cs))"
      by (simp add: drop_takeWhile)
    have "replace_all m_spaces [32] (c # cs) = 32 # replace_all m_spaces [32] (dropWhile isSpaceTab cs)"
      using m by (simp add: drop_takeWhile replace_all_Cons)
    then show ?thesis using ih collapse_after_run [of cs]
      by (simp add: single_spaced_Cons)
  qed
qed


lemma collapse_id:
  "9 \<notin> set s \<Longrightarrow> single_spaced s \<Longrightarrow> replace_all m_spaces [32] s = s"
proof (induction s)
  case Nil
  then show ?case by (simp add: m_spaces_Nil)
next
  case (Cons c cs)
  then have ih: "replace_all m_spaces [32] cs = cs"
    by (simp add: single_spaced_Cons)
  show ?case
  proof (cases "c = 32")
    case False
    with Cons.prems have "\<not> isSpaceTab c" by (auto simp: isSpaceTab_def)
    then show ?thesis using ih by (simp add: collapse_head)
  next
    case True
    with Cons.prems have "cs = [] \<or> \<not> isSpaceTab (hd cs)"
      by (cases cs) (auto simp: isSpaceTab_def)
    then have "takeWhile isSpaceTab cs = []" by (cases cs) auto
    then have "m_spaces (c # cs) = Some (Suc 0)"
      using True by (simp add: m_spaces_Cons isSpaceTab_def)
    then show ?thesis using ih True by (simp add: replace_all_Cons)
  qed
qed

subsection \<open>Trimming the end of each line\<close>

lemma trailing_head:
  "c \<noteq> 32 \<Longrightarrow> replace_all m_trailing [] (c # cs) = c # replace_all m_trailing [] cs"
  by (simp add: m_trailing_Cons replace_all_Cons)

lemma m_trailing_single:
  "single_spaced (c # cs) \<Longrightarrow>
   m_trailing (c # cs) =
     (if c = 32 \<and> (cs = [] \<or> isLineTerminator (hd cs)) then Some (Suc 0) else None)"
  by (cases cs) (auto simp: m_trailing_Cons)

lemma trailing_step:
  "single_spaced (c # cs) \<Longrightarrow>
   replace_all m_trailing [] (c # cs) =
     (if c = 32 \<and> (cs = [] \<or> isLineTerminator (hd cs)) then replace_all m_trailing [] cs
      else c # replace_all m_trailing [] cs)"
  by (simp add: m_trailing_single replace_all_Cons)

lemma trailing_single_spaced:
  "single_spaced s \<Longrightarrow> single_spaced (replace_all m_trailing [] s)"
proof (induction s)
  case Nil
  then show ?case by (simp add: m_trailing_Nil)
next
  case (Cons c cs)
  then have ih: "single_spaced (replace_all m_trailing [] cs)"
    by (simp add: single_spaced_Cons)
  show ?case
  proof (cases "c = 32 \<and> (cs = [] \<or> isLineTerminator (hd cs))")
    case True
    then show ?thesis using ih Cons.prems by (simp add: trailing_step)
  next
    case False
    have "single_spaced (c # replace_all m_trailing [] cs)"
    proof (cases "c = 32")
      case c: True
      with False Cons.prems obtain d ds where cs: "cs = d # ds" and d: "d \<noteq> 32"
        by (cases cs) auto
      then show ?thesis using ih by (simp add: trailing_head)
    next
      case c: False
      then show ?thesis using ih by (simp add: single_spaced_Cons)
    qed
    then show ?thesis
      by (simp only: trailing_step [OF Cons.prems] False if_False)
  qed
qed

lemma trailing_no_trailing:
  "single_spaced s \<Longrightarrow> no_trailing (replace_all m_trailing [] s)"
proof (induction s)
  case Nil
  then show ?case by (simp add: m_trailing_Nil)
next
  case (Cons c cs)
  then have ih: "no_trailing (replace_all m_trailing [] cs)"
    by (simp add: single_spaced_Cons)
  show ?case
  proof (cases "c = 32 \<and> (cs = [] \<or> isLineTerminator (hd cs))")
    case True
    then show ?thesis using ih Cons.prems by (simp add: trailing_step)
  next
    case False
    have "m_trailing (c # replace_all m_trailing [] cs) = None"
    proof (cases "c = 32")
      case c: True
      with False Cons.prems obtain d ds where cs: "cs = d # ds" and d: "d \<noteq> 32"
        and nl: "\<not> isLineTerminator d"
        by (cases cs) auto
      then show ?thesis by (simp add: trailing_head m_trailing_Cons)
    next
      case c: False
      then show ?thesis by (simp add: m_trailing_Cons)
    qed
    then have "no_trailing (c # replace_all m_trailing [] cs)" using ih by simp
    then show ?thesis
      by (simp only: trailing_step [OF Cons.prems] False if_False)
  qed
qed

lemma trailing_id: "no_trailing s \<Longrightarrow> replace_all m_trailing [] s = s"
  by (induction s) (simp_all add: m_trailing_Nil replace_all_Cons)

subsection \<open>The whole pipeline\<close>

lemma sanitized_chars:
  assumes "c \<in> set (stripAnsiCodes text)"
  shows "\<not> isOtherControl c \<and> c \<noteq> 13 \<and> c \<noteq> 9"
proof -
  define t5 where "t5 = replace_all m_crlf [10]
     (replace_all (m_class isBsDel) []
       (replace_all m_esc2 [] (replace_all m_osc [] (replace_all m_csi [] text))))"
  define t8 where "t8 = filter (\<lambda>c. \<not> isOtherControl c)
     (filter (\<lambda>c. \<not> c = 7) (filter (\<lambda>c. \<not> c = 13) t5))"
  define t9 where "t9 = replace_all m_spaces [32] t8"
  have r: "stripAnsiCodes text = replace_all m_trailing [] t9"
    by (simp add: stripAnsiCodes_def t9_def t8_def t5_def replace_all_class)
  have "c \<in> set t9" using assms replace_all_set [of m_trailing "[]" t9] by (auto simp: r)
  then have 9: "c \<noteq> 9" using collapse_no_tab [of t8] by (auto simp: t9_def)
  have "c \<in> set t8 \<or> c = 32"
    using \<open>c \<in> set t9\<close> replace_all_set [of m_spaces "[32]" t8] by (auto simp: t9_def)
  then have "\<not> isOtherControl c \<and> c \<noteq> 13"
    by (auto simp: t8_def isOtherControl_def)
  with 9 show ?thesis by simp
qed

lemma sanitized_single_spaced: "single_spaced (stripAnsiCodes text)"
  by (simp add: stripAnsiCodes_def trailing_single_spaced collapse_single_spaced)

lemma sanitized_no_trailing: "no_trailing (stripAnsiCodes text)"
  by (simp add: stripAnsiCodes_def trailing_no_trailing collapse_single_spaced)

lemma clean_fixed:
  assumes chars: "\<And>c. c \<in> set r \<Longrightarrow> \<not> isOtherControl c \<and> c \<noteq> 13 \<and> c \<noteq> 9"
    and ss: "single_spaced r" and nt: "no_trailing r"
  shows "stripAnsiCodes r = r"
proof -
  have esc: "c \<noteq> 27" if "c \<in> set r" for c
    using chars [OF that] by (auto simp: isOtherControl_def)
  have bs: "\<not> isBsDel c" if "c \<in> set r" for c
    using chars [OF that] by (auto simp: isOtherControl_def isBsDel_def)
  have bel: "c \<noteq> 7" if "c \<in> set r" for c
    using chars [OF that] by (auto simp: isOtherControl_def)
  have 1: "replace_all m_csi [] r = r"
    by (rule replace_all_id) (simp_all add: m_Nil m_csi_head esc)
  have 2: "replace_all m_osc [] r = r"
    by (rule replace_all_id) (simp_all add: m_Nil m_osc_head esc)
  have 3: "replace_all m_esc2 [] r = r"
    by (rule replace_all_id) (simp_all add: m_Nil m_esc2_head esc)
  have 4: "replace_all (m_class isBsDel) [] r = r"
    by (simp add: replace_all_class filter_id_conv bs)
  have 5: "replace_all m_crlf [10] r = r"
    by (rule replace_all_id) (simp_all add: m_Nil m_crlf_head chars)
  have 6: "replace_all (m_class (\<lambda>c. c = 13)) [] r = r"
    by (simp add: replace_all_class filter_id_conv chars)
  have 7: "replace_all (m_class (\<lambda>c. c = 7)) [] r = r"
    by (simp add: replace_all_class filter_id_conv bel)
  have 8: "replace_all (m_class isOtherControl) [] r = r"
    by (simp add: replace_all_class filter_id_conv chars)
  have 9: "replace_all m_spaces [32] r = r"
    using chars ss by (intro collapse_id) auto
  have 10: "replace_all m_trailing [] r = r"
    using nt by (rule trailing_id)
  show ?thesis
    by (simp add: stripAnsiCodes_def 1 2 3 4 5 6 7 8 9 10)
qed

text \<open>
  Claim C2.  The sanitizer is idempotent: sanitizing an already sanitized text changes
  nothing, for every input string.
\<close>

theorem stripAnsiCodes_idempotent:
  "stripAnsiCodes (stripAnsiCodes x) = stripAnsiCodes x"
  by (rule clean_fixed) (simp_all add: sanitized_chars sanitized_single_spaced sanitized_no_trailing)

section \<open>Evaluation on concrete inputs\<close>

text \<open>Unfolding sets for evaluating the definitions on concrete strings and events.\<close>

lemmas class_eval = isDigit_def isParam_def isAlpha_def isBsDel_def isOtherControl_def
  isSpaceTab_def isLineTerminator_def isWhiteSpace_def isWordChar_def isPromptChar_def
lemmas string_eval = str_def trim_def startsWith_def endsWith_def toLowerCase_def class_eval
lemmas sanitize_eval = stripAnsiCodes_def replace_all.simps m_csi_def m_osc_def m_esc2_def
  m_class_def m_crlf_def m_spaces_def m_trailing_def
lemmas classify_eval = isPromptLine_def re_user_host_def host_tag_def isPasswordPrompt_def
  formatPrompt_def

lemmas handler_eval = step_def keydown_def handleMessage_def and_then_def handleModeFlag_def
  handleScreen_def handleCwd_def updatePromptForMode_def updatePrompt_def getShortPath_def
  addOutput_def addFormattedOutput_def clear_def sendInputToShell_def sendTerminalResize_def
  getPromptText_def template_def text_of_def

section \<open>The classifier example\<close>

lemma user_host_clean: "trim (stripAnsiCodes user_host_line) = str ''user@host:~/project$''"
  by (simp add: user_host_line_def string_eval sanitize_eval)

lemma user_host_is_prompt: "isPromptLine (str ''user@host:~/project$'')"
  by (simp add: string_eval classify_eval)

lemma user_host_unchanged: "formatPrompt (str ''user@host:~/project$'') = str ''user@host:~/project$''"
  by (simp add: string_eval classify_eval)

lemma tagged_line_rendered: "formatPrompt (str ''web-h-063@web-h-063:~/project$'') = str ''~/project$''"
  by (simp add: string_eval classify_eval replace_all.simps m_class_def)

text \<open>
  Claim C1 as stated fails: the line \<open>user@host:~/project$\<close> is a shell prompt, but it
  is not rendered as \<open>~/project$\<close>.
\<close>

theorem formatPrompt_user_host_counterexample:
  "formatPrompt (trim (stripAnsiCodes user_host_line)) \<noteq> str ''~/project$''"
  by (simp add: user_host_clean user_host_unchanged) (simp add: str_def)

lemma tilde_id: "replace_all (m_class (\<lambda>c. c = 126)) [126] g = g"
  by (induction g) (simp_all add: m_class_def replace_all.simps)

lemma user_host_displayed: "processTerminalLine (stripAnsiCodes user_host_line) b out = out @ [(ShellPrompt, TextContent (str ''user@host:~/project$''))]"
  by (simp add: processTerminalLine_def Let_def user_host_clean user_host_is_prompt user_host_unchanged addFormattedOutput_def) (simp add: str_def)

text \<open>The captured group of \<open>match_dir\<close> in terms of the line: the first colon that is
  followed by a non-empty run without \<open>$\<close> and \<open>#\<close> and then by one of the two opens the
  match, and the run is the group; a colon directly followed by \<open>$\<close> or \<open>#\<close>, or with
  neither of them behind it, opens none.\<close>

lemma match_dir_first:
  assumes "g \<noteq> []" and "\<forall>x\<in>set g. \<not> isPromptChar x" and "isPromptChar c"
    and "\<forall>p1 p2. pre = p1 @ 58 # p2 \<longrightarrow> p2 \<noteq> [] \<and> isPromptChar (hd p2)"
  shows "match_dir (pre @ 58 # g @ c # post) = Some g"
  using assms(4)
proof (induction pre)
  case Nil
  have "takeWhile (\<lambda>x. \<not> isPromptChar x) (g @ c # post) = g"
    using assms(2,3) by (simp add: takeWhile_tail)
  moreover have "dropWhile (\<lambda>x. \<not> isPromptChar x) (g @ c # post) = c # post"
    using assms(2,3) by (simp add: dropWhile_append3)
  ultimately show ?case using assms(1) by simp
next
  case (Cons a pre)
  have rest: "\<forall>p1 p2. pre = p1 @ 58 # p2 \<longrightarrow> p2 \<noteq> [] \<and> isPromptChar (hd p2)"
  proof (intro allI impI)
    fix p1 p2 assume "pre = p1 @ 58 # p2"
    then have "a # pre = (a # p1) @ 58 # p2" by simp
    with Cons.prems show "p2 \<noteq> [] \<and> isPromptChar (hd p2)" by blast
  qed
  have skip: "match_dir ((a # pre) @ 58 # g @ c # post) = match_dir (pre @ 58 # g @ c # post)"
  proof (cases "a = 58")
    case True
    then have "a # pre = [] @ 58 # pre" by simp
    with Cons.prems have "pre \<noteq> [] \<and> isPromptChar (hd pre)" by blast
    then have "takeWhile (\<lambda>x. \<not> isPromptChar x) (pre @ 58 # g @ c # post) = []"
      by (cases pre) auto
    then show ?thesis by simp
  next
    case False
    then show ?thesis by simp
  qed
  show ?case unfolding skip using rest by (rule Cons.IH)
qed

lemma match_dir_none:
  assumes "\<forall>p1 p2. line = p1 @ 58 # p2 \<longrightarrow>
     p2 = [] \<or> isPromptChar (hd p2) \<or> (\<forall>x\<in>set p2. \<not> isPromptChar x)"
  shows "match_dir line = None"
  using assms
proof (induction line)
  case Nil
  then show ?case by simp
next
  case (Cons a l)
  have rest: "\<forall>p1 p2. l = p1 @ 58 # p2 \<longrightarrow>
     p2 = [] \<or> isPromptChar (hd p2) \<or> (\<forall>x\<in>set p2. \<not> isPromptChar x)"
  proof (intro allI impI)
    fix p1 p2 assume "l = p1 @ 58 # p2"
    then have "a # l = (a # p1) @ 58 # p2" by simp
    with Cons.prems show "p2 = [] \<or> isPromptChar (hd p2) \<or> (\<forall>x\<in>set p2. \<not> isPromptChar x)"
      by blast
  qed
  have skip: "match_dir (a # l) = match_dir l"
  proof (cases "a = 58")
    case True
    then have "a # l = [] @ 58 # l" by simp
    with Cons.prems have "l = [] \<or> isPromptChar (hd l) \<or> (\<forall>x\<in>set l. \<not> isPromptChar x)"
      by blast
    then have "takeWhile (\<lambda>x. \<not> isPromptChar x) l = [] \<or>
        dropWhile (\<lambda>x. \<not> isPromptChar x) l = []"
      by (cases l) auto
    then show ?thesis by auto
  next
    case False
    then show ?thesis by simp
  qed
  show ?case unfolding skip using rest by (rule Cons.IH)
qed

lemma match_dir_some_conv:
  assumes "match_dir line = Some g"
  shows "\<exists>pre c post. line = pre @ 58 # g @ c # post \<and> g \<noteq> [] \<and>
     (\<forall>x\<in>set g. \<not> isPromptChar x) \<and> isPromptChar c \<and>
     (\<forall>p1 p2. pre = p1 @ 58 # p2 \<longrightarrow> p2 \<noteq> [] \<and> isPromptChar (hd p2))"
  using assms
proof (induction line)
  case Nil
  then show ?case by simp
next
  case (Cons a l)
  let ?tw = "takeWhile (\<lambda>x. \<not> isPromptChar x) l"
  let ?dw = "dropWhile (\<lambda>x. \<not> isPromptChar x) l"
  show ?case
  proof (cases "a = 58 \<and> ?tw \<noteq> [] \<and> ?dw \<noteq> []")
    case True
    then have g: "g = ?tw" using Cons.prems by simp
    from True obtain c post where dw: "?dw = c # post" by (cases ?dw) auto
    then have c: "isPromptChar c" using hd_dropWhile [of "\<lambda>x. \<not> isPromptChar x" l] by simp
    have l: "l = ?tw @ c # post" using dw takeWhile_dropWhile_id [of "\<lambda>x. \<not> isPromptChar x" l] by simp
    have "a # l = [] @ 58 # g @ c # post" using True g l by simp
    moreover have "g \<noteq> []" using True g by simp
    moreover have "\<forall>x\<in>set g. \<not> isPromptChar x" using g set_takeWhileD by fastforce
    ultimately show ?thesis using c by blast
  next
    case False
    then have "match_dir l = Some g" using Cons.prems by auto
    then obtain pre c post where d: "l = pre @ 58 # g @ c # post" "g \<noteq> []"
      "\<forall>x\<in>set g. \<not> isPromptChar x" "isPromptChar c"
      "\<forall>p1 p2. pre = p1 @ 58 # p2 \<longrightarrow> p2 \<noteq> [] \<and> isPromptChar (hd p2)"
      using Cons.IH by blast
    have "\<forall>p1 p2. a # pre = p1 @ 58 # p2 \<longrightarrow> p2 \<noteq> [] \<and> isPromptChar (hd p2)"
    proof (intro allI impI)
      fix p1 p2 assume e: "a # pre = p1 @ 58 # p2"
      show "p2 \<noteq> [] \<and> isPromptChar (hd p2)"
      proof (cases p1)
        case Nil
        then have a: "a = 58" and p2: "p2 = pre" using e by simp_all
        have "c \<in> set l" using d(1) by simp
        then have "?dw \<noteq> []" using d(4) by (auto simp: dropWhile_eq_Nil_conv)
        then have tw: "?tw = []" using False a by simp
        have "l \<noteq> []" using d(1) by simp
        then obtain b l' where bl: "l = b # l'" by (cases l) auto
        with tw have b: "isPromptChar b" by (auto split: if_splits)
        have n: "\<not> isPromptChar 58" by (simp add: isPromptChar_def)
        show ?thesis
        proof (cases pre)
          case Nil
          then have "b = 58" using d(1) bl by simp
          with b n show ?thesis by simp
        next
          case (Cons q qs)
          then have "b = q" using d(1) bl by simp
          with b Cons p2 show ?thesis by simp
        qed
      next
        case (Cons b p1')
        then have "pre = p1' @ 58 # p2" using e by simp
        then show ?thesis using d(5) by blast
      qed
    qed
    moreover have "a # l = (a # pre) @ 58 # g @ c # post" using d(1) by simp
    ultimately show ?thesis using d(2,3,4) by blast
  qed
qed

lemma match_dir_none_conv:
  assumes "match_dir line = None"
  shows "\<forall>p1 p2. line = p1 @ 58 # p2 \<longrightarrow>
     p2 = [] \<or> isPromptChar (hd p2) \<or> (\<forall>x\<in>set p2. \<not> isPromptChar x)"
proof (rule ccontr)
  assume "\<not> ?thesis"
  then obtain p1 p2 where l: "line = p1 @ 58 # p2" and ne: "p2 \<noteq> []"
    and h: "\<not> isPromptChar (hd p2)" and ex: "\<exists>x\<in>set p2. isPromptChar x"
    by blast
  have "match_dir (p1 @ 58 # p2) \<noteq> None"
  proof (induction p1)
    case Nil
    have "takeWhile (\<lambda>x. \<not> isPromptChar x) p2 \<noteq> []" using ne h by (cases p2) auto
    moreover have "dropWhile (\<lambda>x. \<not> isPromptChar x) p2 \<noteq> []"
      using ex by (auto simp: dropWhile_eq_Nil_conv)
    ultimately show ?case by simp
  next
    case (Cons a p1)
    then show ?case by simp
  qed
  with assms l show False by simp
qed

lemma tagged_examples:
  "formatPrompt (str ''web-h-063@web-h-063:a:b$'') = str ''a:b$''"
  "formatPrompt (str ''web-h-063@web-h-063:~$ echo $HOME'') = str ''~$''"
  "formatPrompt (str ''web-h-063@web-h-063:$ x:y# z$'') = str ''y#''"
  "formatPrompt (str ''web-h-063@web-h-063 hi'') = str ''web-h-063@web-h-063 hi''"
  by (simp_all add: string_eval classify_eval replace_all.simps m_class_def)

lemma formatPrompt_first_colon:
  assumes "includes_str line host_tag" and "line = pre @ 58 # g @ c # post" and "g \<noteq> []"
    and "\<forall>x\<in>set g. \<not> isPromptChar x" and "isPromptChar c"
    and "\<forall>p1 p2. pre = p1 @ 58 # p2 \<longrightarrow> p2 \<noteq> [] \<and> isPromptChar (hd p2)"
  shows "formatPrompt line =
     g @ (if includes_str line (str ''#'') then str ''#'' else str ''$'')"
proof -
  have "match_dir line = Some g" unfolding assms(2) using assms(3-6) by (rule match_dir_first)
  then show ?thesis using assms(1) by (simp add: formatPrompt_def tilde_id)
qed

lemma formatPrompt_no_colon:
  assumes "includes_str line host_tag"
    and "\<forall>p1 p2. line = p1 @ 58 # p2 \<longrightarrow>
       p2 = [] \<or> isPromptChar (hd p2) \<or> (\<forall>x\<in>set p2. \<not> isPromptChar x)"
  shows "formatPrompt line = line"
  using match_dir_none [OF assms(2)] by (simp add: formatPrompt_def)

lemma colon_cases:
  "(\<exists>pre g c post. line = pre @ 58 # g @ c # post \<and> g \<noteq> [] \<and>
       (\<forall>x\<in>set g. \<not> isPromptChar x) \<and> isPromptChar c \<and>
       (\<forall>p1 p2. pre = p1 @ 58 # p2 \<longrightarrow> p2 \<noteq> [] \<and> isPromptChar (hd p2))) \<or>
   (\<forall>p1 p2. line = p1 @ 58 # p2 \<longrightarrow>
       p2 = [] \<or> isPromptChar (hd p2) \<or> (\<forall>x\<in>set p2. \<not> isPromptChar x))"
proof (cases "match_dir line")
  case None
  then show ?thesis using match_dir_none_conv by blast
next
  case (Some g)
  then show ?thesis using match_dir_some_conv [of line g] by blast
qed

text \<open>
  Claim C1, amended.  The sanitized and trimmed line \<open>user@host:~/project$\<close> is
  classified as a shell prompt and rendered unchanged.  \<open>formatPrompt\<close> rewrites only a
  line that contains the host tag \<open>web-h-063@web-h-063\<close> and in which some colon is
  followed by at least one character other than \<open>$\<close> and \<open>#\<close> and then by a \<open>$\<close> or
  \<open>#\<close>: the directory segment is the text behind the first such colon up to the next
  \<open>$\<close> or \<open>#\<close>, and the symbol (\<open>#\<close> if the line contains \<open>#\<close>, else \<open>$\<close>) is
  appended.  Every other line, without the tag or without such a colon, is returned as it
  is; and every line has such a first colon or none.
\<close>

theorem formatPrompt_host_tag:
  "isPromptLine (trim (stripAnsiCodes user_host_line)) \<and>
   formatPrompt (trim (stripAnsiCodes user_host_line)) = str ''user@host:~/project$'' \<and>
   processTerminalLine (stripAnsiCodes user_host_line) isLastLine out =
     out @ [(ShellPrompt, TextContent (str ''user@host:~/project$''))] \<and>
   (\<not> includes_str la host_tag \<longrightarrow> formatPrompt la = la) \<and>
   (includes_str lb host_tag \<and> lb = pre @ 58 # g @ c # post \<and> g \<noteq> [] \<and>
    (\<forall>x\<in>set g. \<not> isPromptChar x) \<and> isPromptChar c \<and>
    (\<forall>p1 p2. pre = p1 @ 58 # p2 \<longrightarrow> p2 \<noteq> [] \<and> isPromptChar (hd p2)) \<longrightarrow>
      formatPrompt lb = g @ (if includes_str lb (str ''#'') then str ''#'' else str ''$'')) \<and>
   (includes_str lc host_tag \<and>
    (\<forall>p1 p2. lc = p1 @ 58 # p2 \<longrightarrow>
       p2 = [] \<or> isPromptChar (hd p2) \<or> (\<forall>x\<in>set p2. \<not> isPromptChar x)) \<longrightarrow>
      formatPrompt lc = lc) \<and>
   ((\<exists>pre g c post. ld = pre @ 58 # g @ c # post \<and> g \<noteq> [] \<and>
       (\<forall>x\<in>set g. \<not> isPromptChar x) \<and> isPromptChar c \<and>
       (\<forall>p1 p2. pre = p1 @ 58 # p2 \<longrightarrow> p2 \<noteq> [] \<and> isPromptChar (hd p2))) \<or>
    (\<forall>p1 p2. ld = p1 @ 58 # p2 \<longrightarrow>
       p2 = [] \<or> isPromptChar (hd p2) \<or> (\<forall>x\<in>set p2. \<not> isPromptChar x))) \<and>
   formatPrompt (str ''web-h-063@web-h-063:~/project$'') = str ''~/project$'' \<and>
   formatPrompt (str ''web-h-063@web-h-063:a:b$'') = str ''a:b$'' \<and>
   formatPrompt (str ''web-h-063@web-h-063:~$ echo $HOME'') = str ''~$'' \<and>
   formatPrompt (str ''web-h-063@web-h-063:$ x:y# z$'') = str ''y#'' \<and>
   formatPrompt (str ''web-h-063@web-h-063 hi'') = str ''web-h-063@web-h-063 hi''"
proof -
  have 1: "isPromptLine (trim (stripAnsiCodes user_host_line))"
    by (simp add: user_host_clean user_host_is_prompt)
  have 2: "formatPrompt (trim (stripAnsiCodes user_host_line)) = str ''user@host:~/project$''"
    by (simp add: user_host_clean user_host_unchanged)
  have 3: "processTerminalLine (stripAnsiCodes user_host_line) isLastLine out =
     out @ [(ShellPrompt, TextContent (str ''user@host:~/project$''))]"
    by (rule user_host_displayed)
  have 4: "\<not> includes_str la host_tag \<longrightarrow> formatPrompt la = la"
    by (simp add: formatPrompt_def)
  have 5: "includes_str lb host_tag \<and> lb = pre @ 58 # g @ c # post \<and> g \<noteq> [] \<and>
    (\<forall>x\<in>set g. \<not> isPromptChar x) \<and> isPromptChar c \<and>
    (\<forall>p1 p2. pre = p1 @ 58 # p2 \<longrightarrow> p2 \<noteq> [] \<and> isPromptChar (hd p2)) \<longrightarrow>
      formatPrompt lb = g @ (if includes_str lb (str ''#'') then str ''#'' else str ''$'')"
    using formatPrompt_first_colon [of lb pre g c post] by blast
  have 6: "includes_str lc host_tag \<and>
    (\<forall>p1 p2. lc = p1 @ 58 # p2 \<longrightarrow>
       p2 = [] \<or> isPromptChar (hd p2) \<or> (\<forall>x\<in>set p2. \<not> isPromptChar x)) \<longrightarrow>
      formatPrompt lc = lc"
    using formatPrompt_no_colon [of lc] by blast
  note 7 = colon_cases [of ld]
  note 8 = tagged_line_rendered tagged_examples
  from 1 2 3 4 5 6 7 8 show ?thesis by (intro conjI)
qed

text \<open>Claim C1, amended: a line without the tag, a tagged line with a directory, and a
  tagged line whose colon has no \<open>$\<close> or \<open>#\<close> behind it.\<close>

theorem formatPrompt_host_tag_witness:
  "\<not> includes_str (str ''user@host:~/project$'') host_tag \<and>
   formatPrompt (str ''user@host:~/project$'') = str ''user@host:~/project$'' \<and>
   includes_str (str ''root@web-h-063@web-h-063:/etc# '') host_tag \<and>
   str ''root@web-h-063@web-h-063:/etc# '' =
     str ''root@web-h-063@web-h-063'' @ 58 # str ''/etc'' @ 35 # str '' '' \<and>
   str ''/etc'' \<noteq> [] \<and> list_all (\<lambda>x. \<not> isPromptChar x) (str ''/etc'') \<and>
   isPromptChar 35 \<and> 58 \<notin> set (str ''root@web-h-063@web-h-063'') \<and>
   formatPrompt (str ''root@web-h-063@web-h-063:/etc# '') = str ''/etc#'' \<and>
   includes_str (str ''web-h-063@web-h-063: hi'') host_tag \<and>
   list_all (\<lambda>x. \<not> isPromptChar x) (str ''web-h-063@web-h-063: hi'') \<and>
   formatPrompt (str ''web-h-063@web-h-063: hi'') = str ''web-h-063@web-h-063: hi''"
proof -
  note T = formatPrompt_host_tag [where la = "str ''user@host:~/project$''"
      and lb = "str ''root@web-h-063@web-h-063:/etc# ''"
      and pre = "str ''root@web-h-063@web-h-063''" and g = "str ''/etc''" and c = 35
      and post = "str '' ''" and lc = "str ''web-h-063@web-h-063: hi''"]
  have a: "\<not> includes_str (str ''user@host:~/project$'') host_tag"
    by (simp add: string_eval classify_eval)
  have b: "includes_str (str ''root@web-h-063@web-h-063:/etc# '') host_tag"
    by (simp add: string_eval classify_eval)
  have c: "str ''root@web-h-063@web-h-063:/etc# '' =
     str ''root@web-h-063@web-h-063'' @ 58 # str ''/etc'' @ 35 # str '' ''"
    by (simp add: str_def)
  have d: "str ''/etc'' \<noteq> []" "\<forall>x\<in>set (str ''/etc''). \<not> isPromptChar x" "isPromptChar 35"
    by (simp_all add: str_def isPromptChar_def)
  have e: "\<forall>p1 p2. str ''root@web-h-063@web-h-063'' = p1 @ 58 # p2 \<longrightarrow>
      p2 \<noteq> [] \<and> isPromptChar (hd p2)"
  proof (intro allI impI)
    fix p1 p2 :: jsstring
    assume "str ''root@web-h-063@web-h-063'' = p1 @ 58 # p2"
    then have "58 \<in> set (str ''root@web-h-063@web-h-063'')" by simp
    then show "p2 \<noteq> [] \<and> isPromptChar (hd p2)" by (simp add: str_def)
  qed
  have f: "includes_str (str ''root@web-h-063@web-h-063:/etc# '') (str ''#'')"
    by (simp add: string_eval classify_eval)
  have g: "str ''/etc'' @ str ''#'' = str ''/etc#''"
    by (simp add: str_def)
  have h: "includes_str (str ''web-h-063@web-h-063: hi'') host_tag"
    by (simp add: string_eval classify_eval)
  have i: "\<forall>p1 p2. str ''web-h-063@web-h-063: hi'' = p1 @ 58 # p2 \<longrightarrow>
      p2 = [] \<or> isPromptChar (hd p2) \<or> (\<forall>x\<in>set p2. \<not> isPromptChar x)"
  proof (intro allI impI)
    fix p1 p2 :: jsstring
    assume s: "str ''web-h-063@web-h-063: hi'' = p1 @ 58 # p2"
    have "\<forall>x\<in>set (str ''web-h-063@web-h-063: hi''). \<not> isPromptChar x"
      by (simp add: str_def isPromptChar_def)
    then have "\<forall>x\<in>set p2. \<not> isPromptChar x" unfolding s by simp
    then show "p2 = [] \<or> isPromptChar (hd p2) \<or> (\<forall>x\<in>set p2. \<not> isPromptChar x)" by blast
  qed
  from T a have 1: "formatPrompt (str ''user@host:~/project$'') = str ''user@host:~/project$''"
    by blast
  from T b c d e have "formatPrompt (str ''root@web-h-063@web-h-063:/etc# '') =
      str ''/etc'' @ (if includes_str (str ''root@web-h-063@web-h-063:/etc# '') (str ''#'')
        then str ''#'' else str ''$'')"
    by blast
  then have 2: "formatPrompt (str ''root@web-h-063@web-h-063:/etc# '') = str ''/etc#''"
    by (simp only: f if_True g)
  from T h i have 3: "formatPrompt (str ''web-h-063@web-h-063: hi'') =
      str ''web-h-063@web-h-063: hi''"
    by blast
  have j: "list_all (\<lambda>x. \<not> isPromptChar x) (str ''/etc'')"
    "58 \<notin> set (str ''root@web-h-063@web-h-063'')"
    "list_all (\<lambda>x. \<not> isPromptChar x) (str ''web-h-063@web-h-063: hi'')"
    by (simp_all add: str_def isPromptChar_def)
  from a 1 b c d(1,3) j 2 h 3 show ?thesis by (intro conjI)
qed

section \<open>No control character survives\<close>

lemma control_strip_keeps_tab:
  "filter (\<lambda>c. c = 9) (replace_all (m_class isOtherControl) [] t) = filter (\<lambda>c. c = 9) t"
proof -
  have "(\<lambda>x. \<not> isOtherControl x \<and> x = 9) = (\<lambda>x. x = (9::nat))"
    by (auto simp: isOtherControl_def)
  then show ?thesis by (simp add: replace_all_class)
qed

lemma collapse_run:
  assumes "list_all isSpaceTab r" and "r \<noteq> []" and "t = [] \<or> \<not> isSpaceTab (hd t)"
  shows "replace_all m_spaces [32] (r @ t) = 32 # replace_all m_spaces [32] t"
proof -
  obtain c cs where r: "r = c # cs" using assms(2) by (cases r) auto
  have all: "\<forall>x\<in>set cs. isSpaceTab x" and c: "isSpaceTab c"
    using assms(1) by (simp_all add: r list_all_iff)
  have "takeWhile isSpaceTab (cs @ t) = cs"
  proof (cases t)
    case Nil
    then show ?thesis using all by simp
  next
    case (Cons d ds)
    then show ?thesis using all assms(3) by (simp add: takeWhile_tail)
  qed
  then have "m_spaces (c # cs @ t) = Some (Suc (length cs))"
    using c by (simp add: m_spaces_Cons)
  then show ?thesis by (simp add: r replace_all_Cons)
qed

text \<open>
  Claim C9.  The output of the sanitizer holds no ASCII control character (a code unit
  below 32, or DEL) other than line feed, and in particular no tab: the strip of the
  remaining control characters keeps every tab, and the collapse that follows turns each
  run of spaces and tabs into one space.
\<close>

theorem stripAnsiCodes_no_control:
  "(\<forall>c\<in>set (stripAnsiCodes text). isControl c \<longrightarrow> c = 10) \<and>
   9 \<notin> set (stripAnsiCodes text) \<and>
   filter (\<lambda>c. c = 9) (replace_all (m_class isOtherControl) [] t) = filter (\<lambda>c. c = 9) t \<and>
   (list_all isSpaceTab r \<and> r \<noteq> [] \<and> (u = [] \<or> \<not> isSpaceTab (hd u)) \<longrightarrow>
      replace_all m_spaces [32] (r @ u) = 32 # replace_all m_spaces [32] u)"
proof -
  have 1: "\<forall>c\<in>set (stripAnsiCodes text). isControl c \<longrightarrow> c = 10"
  proof (intro ballI impI)
    fix c
    assume "c \<in> set (stripAnsiCodes text)" and ctl: "isControl c"
    then have "\<not> isOtherControl c \<and> c \<noteq> 13 \<and> c \<noteq> 9" by (intro sanitized_chars)
    with ctl show "c = 10" by (auto simp: isOtherControl_def isControl_def)
  qed
  have 2: "9 \<notin> set (stripAnsiCodes text)" using sanitized_chars [of 9 "text"] by auto
  have 3: "filter (\<lambda>c. c = 9) (replace_all (m_class isOtherControl) [] t) = filter (\<lambda>c. c = 9) t"
    by (rule control_strip_keeps_tab)
  have 4: "list_all isSpaceTab r \<and> r \<noteq> [] \<and> (u = [] \<or> \<not> isSpaceTab (hd u)) \<longrightarrow>
      replace_all m_spaces [32] (r @ u) = 32 # replace_all m_spaces [32] u"
  proof
    assume "list_all isSpaceTab r \<and> r \<noteq> [] \<and> (u = [] \<or> \<not> isSpaceTab (hd u))"
    then show "replace_all m_spaces [32] (r @ u) = 32 # replace_all m_spaces [32] u"
      by (intro collapse_run) simp_all
  qed
  from 1 2 3 4 show ?thesis by (intro conjI)
qed

text \<open>Claim C9 at a text with tabs, a line feed and a bell.\<close>

theorem stripAnsiCodes_no_control_witness:
  "stripAnsiCodes [97, 9, 32, 9, 98, 10, 7] = [97, 32, 98, 10] \<and>
   10 \<in> set (stripAnsiCodes [97, 9, 32, 9, 98, 10, 7]) \<and> isControl 10 \<and>
   9 \<notin> set (stripAnsiCodes [97, 9, 32, 9, 98, 10, 7]) \<and>
   filter (\<lambda>c. c = 9) (replace_all (m_class isOtherControl) [] [97, 9, 27, 9]) = [9, 9] \<and>
   list_all isSpaceTab [9, 32, 9] \<and>
   replace_all m_spaces [32] ([9, 32, 9] @ [98]) = [32, 98]"
proof -
  have a: "stripAnsiCodes [97, 9, 32, 9, 98, 10, 7] = [97, 32, 98, 10]"
    by (simp add: sanitize_eval class_eval)
  have b: "replace_all m_spaces [32] [98] = [98]"
    by (simp add: sanitize_eval class_eval)
  show ?thesis
    using stripAnsiCodes_no_control [of "[97, 9, 32, 9, 98, 10, 7]" "[97, 9, 27, 9]" "[9, 32, 9]" "[98]"]
    by (simp add: a b isControl_def isSpaceTab_def)
qed

section \<open>Shortening the path\<close>

text \<open>
  Claim C10.  For a missing or empty path \<open>getShortPath\<close> returns \<open>~\<close> whatever the
  environment is.  For every non-empty path it reads the global \<open>process\<close>; where that
  is not declared, as in a browser, it throws, and so does \<open>updatePrompt\<close> in Normal mode
  with a non-empty directory.
\<close>

theorem getShortPath_faults:
  "getShortPath process None = Inr (str ''~'') \<and>
   getShortPath process (Some []) = Inr (str ''~'') \<and>
   (path \<noteq> [] \<longrightarrow> getShortPath ProcessUndefined (Some path) = Inl ReferenceError) \<and>
   (path \<noteq> [] \<and> \<not> interactiveMode s \<and> currentDirectory s = Some path \<longrightarrow>
      updatePrompt ProcessUndefined s = (Some ReferenceError, s))"
  by (simp add: getShortPath_def updatePrompt_def)

text \<open>Claim C10 at the directory \<open>/tmp\<close>.\<close>

theorem getShortPath_faults_witness:
  "str ''/tmp'' \<noteq> [] \<and>
   getShortPath ProcessUndefined (Some (str ''/tmp'')) = Inl ReferenceError \<and>
   \<not> interactiveMode ((initial []) \<lparr>currentDirectory := Some (str ''/tmp'')\<rparr>) \<and>
   updatePrompt ProcessUndefined ((initial []) \<lparr>currentDirectory := Some (str ''/tmp'')\<rparr>) =
     (Some ReferenceError, (initial []) \<lparr>currentDirectory := Some (str ''/tmp'')\<rparr>)"
  using getShortPath_faults [of ProcessUndefined "str ''/tmp''"
      "(initial []) \<lparr>currentDirectory := Some (str ''/tmp'')\<rparr>"]
  by (simp add: str_def initial_def)

section \<open>What the handlers leave unchanged\<close>

lemma updatePrompt_frame:
  "commandHistory (snd (updatePrompt p s)) = commandHistory s"
  "historyIndex (snd (updatePrompt p s)) = historyIndex s"
  "interactiveMode (snd (updatePrompt p s)) = interactiveMode s"
  "sent (snd (updatePrompt p s)) = sent s"
  "outputLines (snd (updatePrompt p s)) = outputLines s"
  by (simp_all add: updatePrompt_def split: sum.split)

lemma updatePromptForMode_frame:
  "commandHistory (snd (updatePromptForMode p s)) = commandHistory s"
  "historyIndex (snd (updatePromptForMode p s)) = historyIndex s"
  "interactiveMode (snd (updatePromptForMode p s)) = interactiveMode s"
  "sent (snd (updatePromptForMode p s)) = sent s"
  "outputLines (snd (updatePromptForMode p s)) = outputLines s"
  by (simp_all add: updatePromptForMode_def updatePrompt_frame)

lemma handleModeFlag_frame:
  "commandHistory (snd (handleModeFlag p m s)) = commandHistory s"
  "historyIndex (snd (handleModeFlag p m s)) = historyIndex s"
  "interactiveMode (snd (handleModeFlag p m s)) =
     (case m_interactive m of Some b \<Rightarrow> b | None \<Rightarrow> interactiveMode s)"
  "sent (snd (handleModeFlag p m s)) = sent s"
  "outputLines (snd (handleModeFlag p m s)) = outputLines s"
  by (simp_all add: handleModeFlag_def updatePromptForMode_frame split: option.split)

lemma handleScreen_frame:
  "commandHistory (handleScreen m s) = commandHistory s"
  "historyIndex (handleScreen m s) = historyIndex s"
  "interactiveMode (handleScreen m s) = interactiveMode s"
  "sent (handleScreen m s) = sent s"
  by (simp_all add: handleScreen_def clear_def addOutput_def Let_def split: option.split)

lemma handleCwd_frame:
  "commandHistory (snd (handleCwd p m s)) = commandHistory s"
  "historyIndex (snd (handleCwd p m s)) = historyIndex s"
  "interactiveMode (snd (handleCwd p m s)) = interactiveMode s"
  "sent (snd (handleCwd p m s)) = sent s"
  "outputLines (snd (handleCwd p m s)) = outputLines s"
  by (simp_all add: handleCwd_def updatePrompt_frame split: option.split)

lemma snd_and_then:
  "snd (and_then r f) = (case fst r of None \<Rightarrow> snd (f (snd r)) | Some e \<Rightarrow> snd r)"
  by (cases r) (simp add: and_then_def split: option.split)

lemma fst_and_then:
  "fst (and_then r f) = (case fst r of None \<Rightarrow> fst (f (snd r)) | Some e \<Rightarrow> Some e)"
  by (cases r) (simp add: and_then_def split: option.split)

lemma handleMessage_frame:
  "commandHistory (snd (handleMessage p m s)) = commandHistory s"
  "historyIndex (snd (handleMessage p m s)) = historyIndex s"
  "sent (snd (handleMessage p m s)) = sent s"
  by (simp_all add: handleMessage_def snd_and_then updatePrompt_frame handleModeFlag_frame
      handleScreen_frame handleCwd_frame addOutput_def split: msg_type.split option.split)

lemma handleMessage_mode:
  "interactiveMode (snd (handleMessage p m s)) =
     (if mtype m = Output then (case m_interactive m of Some b \<Rightarrow> b | None \<Rightarrow> interactiveMode s)
      else interactiveMode s)"
  by (simp add: handleMessage_def snd_and_then updatePrompt_frame handleModeFlag_frame
      handleScreen_frame handleCwd_frame addOutput_def split: msg_type.split option.split)

lemma executeCommand_mode: "interactiveMode (executeCommand s) = interactiveMode s"
  by (simp add: executeCommand_def Let_def addOutput_def)

lemma sendInputToShell_frame:
  "interactiveMode (sendInputToShell s) = interactiveMode s"
  "commandHistory (sendInputToShell s) = commandHistory s"
  "historyIndex (sendInputToShell s) = historyIndex s"
  "sent (sendInputToShell s) =
     sent s @ (if socketOpen s then [InputMsg (inputValue s @ [10])] else [])"
  by (simp_all add: sendInputToShell_def Let_def)

lemma navigateHistory_frame:
  "interactiveMode (navigateHistory d s) = interactiveMode s"
  "commandHistory (navigateHistory d s) = commandHistory s"
  "sent (navigateHistory d s) = sent s"
  by (simp_all add: navigateHistory_def Let_def)

lemma keydown_mode: "interactiveMode (keydown k s) = interactiveMode s"
  by (simp add: keydown_def executeCommand_mode sendInputToShell_frame navigateHistory_frame)

lemma step_mode:
  "interactiveMode (snd (step p s e)) =
     (case e of
        SocketMessage m \<Rightarrow>
          if mtype m = Output
          then (case m_interactive m of Some b \<Rightarrow> b | None \<Rightarrow> interactiveMode s)
          else interactiveMode s
      | _ \<Rightarrow> interactiveMode s)"
  by (simp add: step_def keydown_mode handleMessage_mode addOutput_def clear_def
      sendTerminalResize_def split: event.split)

lemma executeCommand_history:
  "commandHistory (executeCommand s) =
     (if \<not> interactiveMode s \<and> trim (inputValue s) \<noteq> []
      then commandHistory s @ [trim (inputValue s)] else commandHistory s)"
  "historyIndex (executeCommand s) =
     (if \<not> interactiveMode s \<and> trim (inputValue s) \<noteq> []
      then int (length (commandHistory s)) + 1 else historyIndex s)"
  by (simp_all add: executeCommand_def Let_def addOutput_def)

lemma keydown_history:
  "commandHistory (keydown k s) =
     (if k = Enter \<and> \<not> interactiveMode s \<and> trim (inputValue s) \<noteq> []
      then commandHistory s @ [trim (inputValue s)] else commandHistory s)"
  by (simp add: keydown_def executeCommand_history sendInputToShell_frame navigateHistory_frame)

lemma step_history:
  "commandHistory (snd (step p s e)) =
     (if e = KeyDown Enter \<and> \<not> interactiveMode s \<and> trim (inputValue s) \<noteq> []
      then commandHistory s @ [trim (inputValue s)] else commandHistory s)"
  by (cases e)
    (simp_all add: step_def keydown_history handleMessage_frame addOutput_def clear_def
      sendTerminalResize_def)

lemma step_index_other:
  "(\<forall>k. e \<noteq> KeyDown k) \<Longrightarrow> historyIndex (snd (step p s e)) = historyIndex s"
  by (cases e)
    (simp_all add: step_def handleMessage_frame addOutput_def clear_def sendTerminalResize_def)

lemma keydown_index_interactive:
  "interactiveMode s \<Longrightarrow> historyIndex (keydown k s) = historyIndex s"
  by (simp add: keydown_def sendInputToShell_frame)

lemma step_index_interactive:
  "interactiveMode s \<Longrightarrow> historyIndex (snd (step p s e)) = historyIndex s"
  by (cases e)
    (simp_all add: step_def keydown_index_interactive handleMessage_frame addOutput_def
      clear_def sendTerminalResize_def)

lemma step_sent_interactive:
  assumes "interactiveMode s"
  shows "\<exists>ms. sent (snd (step p s e)) = sent s @ ms \<and> (\<forall>c. CommandMsg c \<notin> set ms)"
proof (cases e)
  case (KeyDown k)
  then show ?thesis using assms
    by (simp add: step_def keydown_def sendInputToShell_frame)
next
  case (WindowResize w h)
  then show ?thesis using assms by (simp add: step_def sendTerminalResize_def)
next
  case (SocketMessage m)
  then show ?thesis by (simp add: step_def handleMessage_frame)
qed (simp_all add: step_def addOutput_def clear_def)

section \<open>The fixtures\<close>

lemma executeCommand_fields:
  assumes "\<not> interactiveMode s" and "trim (inputValue s) \<noteq> []"
  shows "commandHistory (executeCommand s) = commandHistory s @ [trim (inputValue s)]"
    and "historyIndex (executeCommand s) = int (length (commandHistory s)) + 1"
    and "interactiveMode (executeCommand s) = interactiveMode s"
  using assms by (simp_all add: executeCommand_def Let_def addOutput_def)

lemma run_type_command:
  "\<not> interactiveMode s \<Longrightarrow>
   run p s (type_command c @ es) = run p (executeCommand (s\<lparr>inputValue := str c\<rparr>)) es"
  by (simp add: type_command_def step_def keydown_def)

lemma trims: "trim (str ''ls'') = str ''ls''" "trim (str ''pwd'') = str ''pwd''"
  "trim (str ''cd /tmp'') = str ''cd /tmp''"
  by (simp_all add: string_eval)



lemma nonempty: "str ''ls'' \<noteq> []" "str ''pwd'' \<noteq> []" "str ''cd /tmp'' \<noteq> []"
  by (simp_all add: str_def)

lemma fixture_history:
  "commandHistory history_fixture = [str ''ls'', str ''pwd'', str ''cd /tmp'']"
  "historyIndex history_fixture = 3"
  "\<not> interactiveMode history_fixture"
proof -
  define s0 where "s0 = initial []"
  define s1 where "s1 = executeCommand (s0\<lparr>inputValue := str ''ls''\<rparr>)"
  define s2 where "s2 = executeCommand (s1\<lparr>inputValue := str ''pwd''\<rparr>)"
  define s3 where "s3 = executeCommand (s2\<lparr>inputValue := str ''cd /tmp''\<rparr>)"
  have 0: "commandHistory s0 = [] \<and> \<not> interactiveMode s0"
    by (simp add: s0_def initial_def)
  have 1: "commandHistory s1 = [str ''ls''] \<and> \<not> interactiveMode s1"
    unfolding s1_def using 0 by (simp add: executeCommand_fields trims nonempty)
  have 2: "commandHistory s2 = [str ''ls'', str ''pwd''] \<and> \<not> interactiveMode s2"
    unfolding s2_def using 1 by (simp add: executeCommand_fields trims nonempty)
  have 3: "commandHistory s3 = [str ''ls'', str ''pwd'', str ''cd /tmp''] \<and>
      \<not> interactiveMode s3 \<and> historyIndex s3 = 3"
    unfolding s3_def using 2 by (simp add: executeCommand_fields trims nonempty)
  have a: "run ProcessUndefined s0
        (type_command ''ls'' @ type_command ''pwd'' @ type_command ''cd /tmp'') =
      run ProcessUndefined s1 (type_command ''pwd'' @ type_command ''cd /tmp'')"
    unfolding s1_def using 0 by (intro run_type_command) simp
  have b: "run ProcessUndefined s1 (type_command ''pwd'' @ type_command ''cd /tmp'') =
      run ProcessUndefined s2 (type_command ''cd /tmp'' @ [])"
    unfolding s2_def using 1 by (simp only: append_Nil2) (intro run_type_command, simp)
  have c: "run ProcessUndefined s2 (type_command ''cd /tmp'' @ []) = run ProcessUndefined s3 []"
    unfolding s3_def using 2 by (intro run_type_command) simp
  have "history_fixture = s3"
    unfolding history_fixture_def s0_def [symmetric] by (simp only: a b c run.simps(1))
  then show "commandHistory history_fixture = [str ''ls'', str ''pwd'', str ''cd /tmp'']"
    "historyIndex history_fixture = 3" "\<not> interactiveMode history_fixture"
    using 3 by (simp_all only:) simp_all
qed

lemma arrow_key:
  assumes "commandHistory s = h" and "h \<noteq> []" and "\<not> interactiveMode s"
    and "k = ArrowUp \<and> d = - 1 \<or> k = ArrowDown \<and> d = 1"
  shows "commandHistory (keydown k s) = h \<and> \<not> interactiveMode (keydown k s) \<and>
    historyIndex (keydown k s) =
      (if historyIndex s + d < 0 then 0
       else if historyIndex s + d \<ge> int (length h) then int (length h)
       else historyIndex s + d) \<and>
    inputValue (keydown k s) =
      (if historyIndex s + d < 0 then history_entry h 0
       else if historyIndex s + d \<ge> int (length h) then []
       else history_entry h (historyIndex s + d))"
  using assms by (auto simp: keydown_def navigateHistory_def Let_def)

lemma run_key: "run p s (KeyDown k # es) = run p (keydown k s) es"
  by (simp add: step_def)

lemma interactive_fixture_fields:
  "interactiveMode interactive_fixture" "socketOpen interactive_fixture"
  "sent interactive_fixture = []" "inputValue interactive_fixture = str ''y''"
  by (simp_all add: interactive_fixture_def mode_message_def initial_def handler_eval)

section \<open>History navigation\<close>

lemma history_walk:
  assumes h: "commandHistory s = [str ''ls'', str ''pwd'', str ''cd /tmp'']"
    and i: "historyIndex s = 3" and n: "\<not> interactiveMode s"
  shows "historyIndex (run p s [KeyDown ArrowUp, KeyDown ArrowUp, KeyDown ArrowDown]) = 2 \<and> inputValue (run p s [KeyDown ArrowUp, KeyDown ArrowUp, KeyDown ArrowDown]) = str ''cd /tmp'' \<and>
    historyIndex (run p s [KeyDown ArrowUp, KeyDown ArrowUp, KeyDown ArrowDown, KeyDown ArrowDown]) = 3 \<and> inputValue (run p s [KeyDown ArrowUp, KeyDown ArrowUp, KeyDown ArrowDown, KeyDown ArrowDown]) = [] \<and>
    historyIndex (run p s [KeyDown ArrowUp, KeyDown ArrowUp, KeyDown ArrowUp, KeyDown ArrowDown]) = 1 \<and> inputValue (run p s [KeyDown ArrowUp, KeyDown ArrowUp, KeyDown ArrowUp, KeyDown ArrowDown]) = str ''pwd''"
proof -
  let ?h = "[str ''ls'', str ''pwd'', str ''cd /tmp'']"
  define u1 where "u1 = keydown ArrowUp s"
  define u2 where "u2 = keydown ArrowUp u1"
  define d3 where "d3 = keydown ArrowDown u2"
  define d4 where "d4 = keydown ArrowDown d3"
  define u3 where "u3 = keydown ArrowUp u2"
  define e4 where "e4 = keydown ArrowDown u3"
  have 1: "commandHistory u1 = ?h \<and> \<not> interactiveMode u1 \<and> historyIndex u1 = 2"
    unfolding u1_def using arrow_key [OF h _ n, of ArrowUp "- 1"] i by simp
  have 2: "commandHistory u2 = ?h \<and> \<not> interactiveMode u2 \<and> historyIndex u2 = 1"
    unfolding u2_def using arrow_key [of u1 ?h ArrowUp "- 1"] 1 by simp
  have 3: "commandHistory d3 = ?h \<and> \<not> interactiveMode d3 \<and> historyIndex d3 = 2 \<and>
      inputValue d3 = str ''cd /tmp''"
    unfolding d3_def using arrow_key [of u2 ?h ArrowDown 1] 2 by (simp add: history_entry_def)
  have 4: "historyIndex d4 = 3 \<and> inputValue d4 = []"
    unfolding d4_def using arrow_key [of d3 ?h ArrowDown 1] 3 by simp
  have 5: "commandHistory u3 = ?h \<and> \<not> interactiveMode u3 \<and> historyIndex u3 = 0"
    unfolding u3_def using arrow_key [of u2 ?h ArrowUp "- 1"] 2 by simp
  have 6: "historyIndex e4 = 1 \<and> inputValue e4 = str ''pwd''"
    unfolding e4_def using arrow_key [of u3 ?h ArrowDown 1] 5 by (simp add: history_entry_def)
  have "run p s [KeyDown ArrowUp, KeyDown ArrowUp, KeyDown ArrowDown] = d3"
    by (simp only: run_key run.simps(1) u1_def u2_def d3_def)
  moreover have "run p s [KeyDown ArrowUp, KeyDown ArrowUp, KeyDown ArrowDown, KeyDown ArrowDown] = d4"
    by (simp only: run_key run.simps(1) u1_def u2_def d3_def d4_def)
  moreover have "run p s [KeyDown ArrowUp, KeyDown ArrowUp, KeyDown ArrowUp, KeyDown ArrowDown] = e4"
    by (simp only: run_key run.simps(1) u1_def u2_def u3_def e4_def)
  ultimately show ?thesis using 3 4 6 by simp
qed

text \<open>
  Claim C3 as stated fails: after Up, Up, Up, Down from the end of the three-entry history
  the cursor is not at index 2 with input \<open>cd /tmp\<close>.
\<close>

theorem navigateHistory_up3_down1_counterexample:
  "\<not> (historyIndex (run ProcessUndefined history_fixture [KeyDown ArrowUp, KeyDown ArrowUp, KeyDown ArrowUp, KeyDown ArrowDown]) = 2 \<and>
      inputValue (run ProcessUndefined history_fixture [KeyDown ArrowUp, KeyDown ArrowUp, KeyDown ArrowUp, KeyDown ArrowDown]) = str ''cd /tmp'')"
  using history_walk [OF fixture_history, of ProcessUndefined] by simp

text \<open>
  Claim C3, amended.  With the history \<open>ls\<close>, \<open>pwd\<close>, \<open>cd /tmp\<close> and the cursor at 3,
  Up twice and Down once give cursor 2 and input \<open>cd /tmp\<close>, and one more Down clears the
  input and sets the cursor to 3.  Up three times and Down once give cursor 1 and input
  \<open>pwd\<close>.
\<close>

theorem navigateHistory_up2_down2:
  assumes "commandHistory s = [str ''ls'', str ''pwd'', str ''cd /tmp'']"
    and "historyIndex s = 3" and "\<not> interactiveMode s"
  shows "historyIndex (run p s [KeyDown ArrowUp, KeyDown ArrowUp, KeyDown ArrowDown]) = 2 \<and> inputValue (run p s [KeyDown ArrowUp, KeyDown ArrowUp, KeyDown ArrowDown]) = str ''cd /tmp'' \<and>
    historyIndex (run p s [KeyDown ArrowUp, KeyDown ArrowUp, KeyDown ArrowDown, KeyDown ArrowDown]) = 3 \<and> inputValue (run p s [KeyDown ArrowUp, KeyDown ArrowUp, KeyDown ArrowDown, KeyDown ArrowDown]) = [] \<and>
    historyIndex (run p s [KeyDown ArrowUp, KeyDown ArrowUp, KeyDown ArrowUp, KeyDown ArrowDown]) = 1 \<and> inputValue (run p s [KeyDown ArrowUp, KeyDown ArrowUp, KeyDown ArrowUp, KeyDown ArrowDown]) = str ''pwd''"
  using assms by (rule history_walk)

text \<open>Claim C3, amended: at the terminal that has just submitted the three commands.\<close>

theorem navigateHistory_up2_down2_witness:
  "commandHistory history_fixture = [str ''ls'', str ''pwd'', str ''cd /tmp''] \<and>
   historyIndex history_fixture = 3 \<and> \<not> interactiveMode history_fixture \<and>
   historyIndex (run ProcessUndefined history_fixture [KeyDown ArrowUp, KeyDown ArrowUp, KeyDown ArrowDown]) = 2 \<and>
   inputValue (run ProcessUndefined history_fixture [KeyDown ArrowUp, KeyDown ArrowUp, KeyDown ArrowDown]) = str ''cd /tmp'' \<and>
   historyIndex (run ProcessUndefined history_fixture [KeyDown ArrowUp, KeyDown ArrowUp, KeyDown ArrowDown, KeyDown ArrowDown]) = 3 \<and>
   inputValue (run ProcessUndefined history_fixture [KeyDown ArrowUp, KeyDown ArrowUp, KeyDown ArrowDown, KeyDown ArrowDown]) = []"
  using navigateHistory_up2_down2 [OF fixture_history, of ProcessUndefined] fixture_history
  by simp

section \<open>The range of the history cursor\<close>

lemma navigateHistory_index:
  "commandHistory s \<noteq> [] \<Longrightarrow>
   historyIndex (navigateHistory d s) =
     (if historyIndex s + d < 0 then 0
      else if historyIndex s + d \<ge> int (length (commandHistory s))
        then int (length (commandHistory s))
      else historyIndex s + d)"
  by (simp add: navigateHistory_def Let_def)

lemma navigateHistory_empty: "commandHistory s = [] \<Longrightarrow> navigateHistory d s = s"
  by (simp add: navigateHistory_def)

lemma keydown_index_range:
  assumes "(commandHistory s = [] \<and> historyIndex s = - 1) \<or>
     (commandHistory s \<noteq> [] \<and> 0 \<le> historyIndex s \<and> historyIndex s \<le> int (length (commandHistory s)))"
  shows "(commandHistory (keydown k s) = [] \<and> historyIndex (keydown k s) = - 1) \<or>
     (commandHistory (keydown k s) \<noteq> [] \<and> 0 \<le> historyIndex (keydown k s) \<and>
      historyIndex (keydown k s) \<le> int (length (commandHistory (keydown k s))))"
proof (cases "commandHistory s = []")
  case True
  then show ?thesis using assms
    by (auto simp: keydown_def executeCommand_history sendInputToShell_frame
        navigateHistory_empty)
next
  case False
  then show ?thesis using assms
    by (auto simp: keydown_def executeCommand_history sendInputToShell_frame
        navigateHistory_frame navigateHistory_index)
qed

lemma step_index_range:
  assumes "(commandHistory s = [] \<and> historyIndex s = - 1) \<or>
     (commandHistory s \<noteq> [] \<and> 0 \<le> historyIndex s \<and> historyIndex s \<le> int (length (commandHistory s)))"
  shows "(commandHistory (snd (step p s e)) = [] \<and> historyIndex (snd (step p s e)) = - 1) \<or>
     (commandHistory (snd (step p s e)) \<noteq> [] \<and> 0 \<le> historyIndex (snd (step p s e)) \<and>
      historyIndex (snd (step p s e)) \<le> int (length (commandHistory (snd (step p s e)))))"
proof (cases "\<exists>k. e = KeyDown k")
  case True
  then obtain k where "e = KeyDown k" by blast
  then show ?thesis using keydown_index_range [OF assms, of k] by (simp add: step_def)
next
  case False
  then have "commandHistory (snd (step p s e)) = commandHistory s"
    and "historyIndex (snd (step p s e)) = historyIndex s"
    by (auto simp: step_history step_index_other)
  then show ?thesis using assms by simp
qed

lemma run_index_range:
  assumes "(commandHistory s = [] \<and> historyIndex s = - 1) \<or>
     (commandHistory s \<noteq> [] \<and> 0 \<le> historyIndex s \<and> historyIndex s \<le> int (length (commandHistory s)))"
  shows "(commandHistory (run p s es) = [] \<and> historyIndex (run p s es) = - 1) \<or>
     (commandHistory (run p s es) \<noteq> [] \<and> 0 \<le> historyIndex (run p s es) \<and>
      historyIndex (run p s es) \<le> int (length (commandHistory (run p s es))))"
  using assms
proof (induction es arbitrary: s)
  case Nil
  then show ?case by simp
next
  case (Cons e es)
  show ?case
    unfolding run.simps by (rule Cons.IH) (rule step_index_range [OF Cons.prems])
qed

text \<open>
  Claim C4 as stated fails in the state the constructor leaves: the history is empty and
  the cursor is \<open>-1\<close>, outside \<open>[0, 0]\<close>.
\<close>

theorem historyIndex_initial_counterexample:
  "\<not> (0 \<le> historyIndex (run ProcessUndefined (initial []) []) \<and>
      historyIndex (run ProcessUndefined (initial []) []) \<le>
        int (length (commandHistory (run ProcessUndefined (initial []) []))))"
  by (simp add: initial_def)

text \<open>
  Claim C4, amended.  In every reachable state the cursor is \<open>-1\<close> while the history is
  empty (no command has been submitted yet), and within \<open>[0, history.length]\<close> once the
  history is not empty.  On a non-empty
  history a request below 0 sets the cursor to 0, and a request at or above the length
  clears the input and sets the cursor to the length; on an empty history
  \<open>navigateHistory\<close> changes nothing.
\<close>

theorem historyIndex_range:
  "((commandHistory (run p (initial prompt0) es) = [] \<and>
     historyIndex (run p (initial prompt0) es) = - 1) \<or>
    (commandHistory (run p (initial prompt0) es) \<noteq> [] \<and> 0 \<le> historyIndex (run p (initial prompt0) es) \<and>
     historyIndex (run p (initial prompt0) es) \<le>
       int (length (commandHistory (run p (initial prompt0) es))))) \<and>
   (commandHistory s1 \<noteq> [] \<and> historyIndex s1 + d1 < 0 \<longrightarrow>
      historyIndex (navigateHistory d1 s1) = 0) \<and>
   (commandHistory s2 \<noteq> [] \<and> historyIndex s2 + d2 \<ge> int (length (commandHistory s2)) \<longrightarrow>
      historyIndex (navigateHistory d2 s2) = int (length (commandHistory s2)) \<and>
      inputValue (navigateHistory d2 s2) = []) \<and>
   (commandHistory s3 = [] \<longrightarrow> navigateHistory d3 s3 = s3)"
proof -
  have "(commandHistory (initial prompt0) = [] \<and> historyIndex (initial prompt0) = - 1) \<or>
     (commandHistory (initial prompt0) \<noteq> [] \<and> 0 \<le> historyIndex (initial prompt0) \<and>
      historyIndex (initial prompt0) \<le> int (length (commandHistory (initial prompt0))))"
    by (simp add: initial_def)
  then have 1: "(commandHistory (run p (initial prompt0) es) = [] \<and>
     historyIndex (run p (initial prompt0) es) = - 1) \<or>
    (commandHistory (run p (initial prompt0) es) \<noteq> [] \<and> 0 \<le> historyIndex (run p (initial prompt0) es) \<and>
     historyIndex (run p (initial prompt0) es) \<le>
       int (length (commandHistory (run p (initial prompt0) es))))"
    by (rule run_index_range)
  have 2: "commandHistory s1 \<noteq> [] \<and> historyIndex s1 + d1 < 0 \<longrightarrow>
      historyIndex (navigateHistory d1 s1) = 0"
    by (simp add: navigateHistory_index)
  have 3: "commandHistory s2 \<noteq> [] \<and> historyIndex s2 + d2 \<ge> int (length (commandHistory s2)) \<longrightarrow>
      historyIndex (navigateHistory d2 s2) = int (length (commandHistory s2)) \<and>
      inputValue (navigateHistory d2 s2) = []"
    by (simp add: navigateHistory_def Let_def)
  have 4: "commandHistory s3 = [] \<longrightarrow> navigateHistory d3 s3 = s3"
    by (simp add: navigateHistory_empty)
  from 1 2 3 4 show ?thesis by (intro conjI)
qed

text \<open>Claim C4, amended: at the terminal with three commands and at the fresh one.\<close>

theorem historyIndex_range_witness:
  "commandHistory history_fixture \<noteq> [] \<and> historyIndex history_fixture + (- 5) < 0 \<and>
   historyIndex (navigateHistory (- 5) history_fixture) = 0 \<and>
   historyIndex history_fixture + 1 \<ge> int (length (commandHistory history_fixture)) \<and>
   historyIndex (navigateHistory 1 history_fixture) = 3 \<and>
   inputValue (navigateHistory 1 history_fixture) = [] \<and>
   commandHistory (initial []) = [] \<and> navigateHistory (- 1) (initial []) = initial [] \<and>
   commandHistory (run ProcessUndefined (initial []) (type_command ''ls'')) = [str ''ls''] \<and>
   historyIndex (run ProcessUndefined (initial []) (type_command ''ls'')) = 1 \<and>
   commandHistory (run ProcessUndefined (initial []) []) = [] \<and>
   historyIndex (run ProcessUndefined (initial []) []) = - 1"
proof -
  have "\<not> interactiveMode (initial [])" by (simp add: initial_def)
  then have "run ProcessUndefined (initial []) (type_command ''ls'' @ []) =
      run ProcessUndefined (executeCommand ((initial []) \<lparr>inputValue := str ''ls''\<rparr>)) []"
    by (rule run_type_command)
  then have a: "historyIndex (run ProcessUndefined (initial []) (type_command ''ls'')) = 1"
    "commandHistory (run ProcessUndefined (initial []) (type_command ''ls'')) = [str ''ls'']"
    by (simp_all add: executeCommand_history trims nonempty initial_def)
  show ?thesis
    using historyIndex_range [of ProcessUndefined "[]" "type_command ''ls''"
        history_fixture "- 5" history_fixture 1 "initial []" "- 1"]
    by (simp add: fixture_history a) (simp add: initial_def)
qed

section \<open>The mode\<close>

text \<open>
  Claim C5.  The mode changes only when an \<open>output\<close> message carries the \<open>interactive\<close>
  flag, and then to the value of the flag, also when the handler throws afterwards; no
  other event changes it.  In Interactive mode Enter hands the raw value of the input
  element plus a line feed to the socket as an \<open>input\<close> message when the socket is open
  (nothing can be sent when it is not), and no event sends a \<open>command\<close> message.
\<close>

theorem mode_changes_only_by_flag:
  "(interactiveMode (snd (step p s e)) \<noteq> interactiveMode s \<longrightarrow>
      (\<exists>m. e = SocketMessage m \<and> mtype m = Output \<and>
           m_interactive m = Some (interactiveMode (snd (step p s e))))) \<and>
   (mtype m = Output \<and> m_interactive m = Some b \<longrightarrow>
      interactiveMode (snd (step p s' (SocketMessage m))) = b) \<and>
   (interactiveMode si \<longrightarrow>
      sent (snd (step p si (KeyDown Enter))) =
        sent si @ (if socketOpen si then [InputMsg (inputValue si @ [10])] else [])) \<and>
   (interactiveMode si \<longrightarrow>
      (\<exists>ms. sent (snd (step p si e')) = sent si @ ms \<and> (\<forall>c. CommandMsg c \<notin> set ms)))"
proof -
  have 1: "interactiveMode (snd (step p s e)) \<noteq> interactiveMode s \<longrightarrow>
      (\<exists>m. e = SocketMessage m \<and> mtype m = Output \<and>
           m_interactive m = Some (interactiveMode (snd (step p s e))))"
    by (cases e) (auto simp: step_mode split: option.splits if_splits)
  have 2: "mtype m = Output \<and> m_interactive m = Some b \<longrightarrow>
      interactiveMode (snd (step p s' (SocketMessage m))) = b"
    by (simp add: step_mode)
  have 3: "interactiveMode si \<longrightarrow>
      sent (snd (step p si (KeyDown Enter))) =
        sent si @ (if socketOpen si then [InputMsg (inputValue si @ [10])] else [])"
    by (simp add: step_def keydown_def sendInputToShell_frame)
  have 4: "interactiveMode si \<longrightarrow>
      (\<exists>ms. sent (snd (step p si e')) = sent si @ ms \<and> (\<forall>c. CommandMsg c \<notin> set ms))"
    by (simp add: step_sent_interactive)
  from 1 2 3 4 show ?thesis by (intro conjI)
qed

text \<open>Claim C5 at the fresh terminal and at the connected one in Interactive mode.\<close>

theorem mode_changes_only_by_flag_witness:
  "interactiveMode (snd (step ProcessUndefined (initial []) (SocketMessage (mode_message True))))
     \<noteq> interactiveMode (initial []) \<and>
   mtype (mode_message True) = Output \<and> m_interactive (mode_message True) = Some True \<and>
   interactiveMode (snd (step ProcessUndefined (initial []) (SocketMessage (mode_message True)))) \<and>
   interactiveMode interactive_fixture \<and>
   sent (snd (step ProcessUndefined interactive_fixture (KeyDown Enter))) =
     [InputMsg (str ''y'' @ [10])]"
proof -
  note T = mode_changes_only_by_flag [of ProcessUndefined "initial []"
      "SocketMessage (mode_message True)" "mode_message True" True "initial []"
      interactive_fixture "KeyDown Enter"]
  have m: "mtype (mode_message True) = Output \<and> m_interactive (mode_message True) = Some True"
    by (simp add: mode_message_def)
  have n: "\<not> interactiveMode (initial [])" by (simp add: initial_def)
  have i: "interactiveMode interactive_fixture" by (rule interactive_fixture_fields)
  from T m have on:
    "interactiveMode (snd (step ProcessUndefined (initial []) (SocketMessage (mode_message True))))"
    by blast
  from T i have "sent (snd (step ProcessUndefined interactive_fixture (KeyDown Enter))) =
      sent interactive_fixture @
      (if socketOpen interactive_fixture then [InputMsg (inputValue interactive_fixture @ [10])]
       else [])"
    by blast
  then have e: "sent (snd (step ProcessUndefined interactive_fixture (KeyDown Enter))) =
      [InputMsg (str ''y'' @ [10])]"
    by (simp only: interactive_fixture_fields if_True append_Nil)
  from m n i on e show ?thesis by (intro conjI) simp_all
qed

section \<open>When the history grows\<close>

text \<open>
  Claim C6.  The history changes only by Enter in Normal mode with an input that is not
  empty after trimming, and then the trimmed input is appended.  In Interactive mode no
  event changes the history or its cursor, and the arrow keys change nothing at all.
\<close>

theorem history_frozen_while_interactive:
  "(commandHistory (snd (step p s e)) \<noteq> commandHistory s \<longrightarrow>
      e = KeyDown Enter \<and> \<not> interactiveMode s \<and> trim (inputValue s) \<noteq> [] \<and>
      commandHistory (snd (step p s e)) = commandHistory s @ [trim (inputValue s)]) \<and>
   (\<not> interactiveMode sn \<and> trim (inputValue sn) \<noteq> [] \<longrightarrow>
      commandHistory (snd (step p sn (KeyDown Enter))) =
        commandHistory sn @ [trim (inputValue sn)]) \<and>
   (interactiveMode si \<longrightarrow>
      commandHistory (snd (step p si e')) = commandHistory si \<and>
      historyIndex (snd (step p si e')) = historyIndex si \<and>
      keydown ArrowUp si = si \<and> keydown ArrowDown si = si)"
proof -
  have 1: "commandHistory (snd (step p s e)) \<noteq> commandHistory s \<longrightarrow>
      e = KeyDown Enter \<and> \<not> interactiveMode s \<and> trim (inputValue s) \<noteq> [] \<and>
      commandHistory (snd (step p s e)) = commandHistory s @ [trim (inputValue s)]"
    by (simp add: step_history)
  have 2: "\<not> interactiveMode sn \<and> trim (inputValue sn) \<noteq> [] \<longrightarrow>
      commandHistory (snd (step p sn (KeyDown Enter))) =
        commandHistory sn @ [trim (inputValue sn)]"
    by (simp add: step_history)
  have 3: "interactiveMode si \<longrightarrow>
      commandHistory (snd (step p si e')) = commandHistory si \<and>
      historyIndex (snd (step p si e')) = historyIndex si \<and>
      keydown ArrowUp si = si \<and> keydown ArrowDown si = si"
    by (simp add: step_history step_index_interactive keydown_def)
  from 1 2 3 show ?thesis by (intro conjI)
qed

text \<open>Claim C6 at a fresh terminal with \<open>ls\<close> typed and at the one in Interactive mode.\<close>

theorem history_frozen_while_interactive_witness:
  "\<not> interactiveMode ((initial []) \<lparr>inputValue := str '' ls ''\<rparr>) \<and>
   trim (inputValue ((initial []) \<lparr>inputValue := str '' ls ''\<rparr>)) \<noteq> [] \<and>
   commandHistory (snd (step ProcessUndefined ((initial []) \<lparr>inputValue := str '' ls ''\<rparr>)
       (KeyDown Enter))) = [str ''ls''] \<and>
   interactiveMode interactive_fixture \<and>
   commandHistory (snd (step ProcessUndefined interactive_fixture (KeyDown Enter))) =
     commandHistory interactive_fixture \<and>
   historyIndex (snd (step ProcessUndefined interactive_fixture (KeyDown Enter))) =
     historyIndex interactive_fixture \<and>
   keydown ArrowUp interactive_fixture = interactive_fixture"
proof -
  let ?s = "(initial []) \<lparr>inputValue := str '' ls ''\<rparr>"
  note T = history_frozen_while_interactive [of ProcessUndefined ?s "KeyDown Enter" ?s
      interactive_fixture "KeyDown Enter"]
  have t: "trim (str '' ls '') = str ''ls''" by (simp add: string_eval)
  have n: "str ''ls'' \<noteq> []" by (simp add: str_def)
  have a: "\<not> interactiveMode ?s" by (simp add: initial_def)
  have b: "trim (inputValue ?s) \<noteq> []" by (simp add: t n)
  from T a b have "commandHistory (snd (step ProcessUndefined ?s (KeyDown Enter))) =
      commandHistory ?s @ [trim (inputValue ?s)]"
    by blast
  then have c: "commandHistory (snd (step ProcessUndefined ?s (KeyDown Enter))) = [str ''ls'']"
    by (simp add: t initial_def)
  have i: "interactiveMode interactive_fixture" by (rule interactive_fixture_fields)
  from T i have d: "commandHistory (snd (step ProcessUndefined interactive_fixture (KeyDown Enter))) =
      commandHistory interactive_fixture \<and>
     historyIndex (snd (step ProcessUndefined interactive_fixture (KeyDown Enter))) =
      historyIndex interactive_fixture \<and>
     keydown ArrowUp interactive_fixture = interactive_fixture"
    by blast
  from a b c i d show ?thesis by blast
qed

section \<open>Clearing the screen\<close>

text \<open>When the mode flag of the message has been handled without a fault, a message with
  \<open>clear_screen\<close> leaves the output empty for the command \<open>clear\<close>, and with the command
  line alone for any other command.\<close>

lemma handleMessage_clear_screen:
  assumes "mtype m = Output" and "m_clear_screen m = Some True"
    and "fst (handleModeFlag p m s) = None"
  shows "outputLines (snd (handleMessage p m s)) =
     (if m_command m = Some (str ''clear'') then []
      else [(CommandLine,
             TextContent (getPromptText (snd (handleModeFlag p m s)) @ template (m_command m)))])"
  using assms
  by (simp add: handleMessage_def snd_and_then handleCwd_frame handleScreen_def clear_def
      addOutput_def addFormattedOutput_def getPromptText_def Let_def)

lemma handleModeFlag_no_fault:
  "m_interactive m \<noteq> Some False \<Longrightarrow> fst (handleModeFlag p m s) = None"
  by (cases "m_interactive m") (auto simp: handleModeFlag_def updatePromptForMode_def)

lemma greeted_fixture_fields:
  "outputLines greeted_fixture =
     [(SuccessText, TextContent (str ''Connected to FastAPI Terminal''))]"
  "currentDirectory greeted_fixture = Some (str ''/tmp'')"
  "\<not> interactiveMode greeted_fixture"
proof -
  have tmp: "str ''/tmp'' \<noteq> []" by (simp add: str_def)
  show "outputLines greeted_fixture =
     [(SuccessText, TextContent (str ''Connected to FastAPI Terminal''))]"
    "currentDirectory greeted_fixture = Some (str ''/tmp'')"
    "\<not> interactiveMode greeted_fixture"
    by (simp_all add: greeted_fixture_def welcome_message_def initial_def handler_eval tmp)
qed

text \<open>
  Claim C7 at the failing input.  In a browser, with a non-empty directory held, an
  \<open>output\<close> message that carries \<open>interactive: false\<close> next to \<open>clear_screen: true\<close> and the
  command \<open>clear\<close> stops the handler in the prompt update of the mode flag, before the
  screen is cleared: the output keeps its line.  The same message without the flag
  empties the output.
\<close>

theorem clear_screen_skipped_after_fault:
  "fst (step ProcessUndefined greeted_fixture (SocketMessage (clear_message (Some False)))) =
     Some ReferenceError \<and>
   outputLines
     (snd (step ProcessUndefined greeted_fixture (SocketMessage (clear_message (Some False))))) =
     [(SuccessText, TextContent (str ''Connected to FastAPI Terminal''))] \<and>
   outputLines
     (snd (step ProcessUndefined greeted_fixture (SocketMessage (clear_message None)))) = []"
proof -
  have tmp: "str ''/tmp'' \<noteq> []" by (simp add: str_def)
  have f: "handleModeFlag ProcessUndefined (clear_message (Some False)) greeted_fixture =
      (Some ReferenceError, greeted_fixture \<lparr>interactiveMode := False\<rparr>)"
    by (simp add: handleModeFlag_def clear_message_def updatePromptForMode_def updatePrompt_def
        getShortPath_def greeted_fixture_fields tmp)
  have 1: "step ProcessUndefined greeted_fixture (SocketMessage (clear_message (Some False))) =
      (Some ReferenceError, greeted_fixture \<lparr>interactiveMode := False\<rparr>)"
  proof -
    have "mtype (clear_message (Some False)) = Output" by (simp add: clear_message_def)
    then show ?thesis by (simp add: step_def handleMessage_def f and_then_def)
  qed
  have "mtype (clear_message None) = Output" "m_clear_screen (clear_message None) = Some True"
    "m_command (clear_message None) = Some (str ''clear'')"
    "m_interactive (clear_message None) \<noteq> Some False"
    by (simp_all add: clear_message_def)
  then have 2: "outputLines (snd (handleMessage ProcessUndefined (clear_message None)
      greeted_fixture)) = []"
    by (simp add: handleMessage_clear_screen handleModeFlag_no_fault)
  show ?thesis by (simp add: 1 greeted_fixture_fields) (simp add: step_def 2)
qed

section \<open>Blank lines of raw output\<close>

lemma addRawOutput_loop_append:
  "addRawOutput_loop text n i (xs @ ys) out =
     addRawOutput_loop text n (i + length xs) ys (addRawOutput_loop text n i xs out)"
  by (induction xs arbitrary: i out) simp_all

lemma blank_not_prompt: "\<not> isPromptLine []" "\<not> isPasswordPrompt []"
  by (simp_all add: classify_eval string_eval)

lemma processTerminalLine_blank: "trim line = [] \<Longrightarrow> processTerminalLine line isLastLine out = out"
  by (simp add: processTerminalLine_def blank_not_prompt)

lemma takeWhile_shorter: "x \<in> set t \<Longrightarrow> \<not> P x \<Longrightarrow> length (takeWhile P t) < length t"
  by (induction t) auto

lemma dropWhile_split: "dropWhile P xs = y # ys \<Longrightarrow> xs = takeWhile P xs @ y # ys"
  using takeWhile_dropWhile_id [of P xs] by simp

lemma endsWith_single: "endsWith s [c] = (s \<noteq> [] \<and> last s = c)"
proof (cases s rule: rev_cases)
  case Nil
  then show ?thesis by (simp add: endsWith_def)
next
  case (snoc ys y)
  then show ?thesis by (simp add: endsWith_def)
qed

lemma split_on_final:
  "s \<noteq> [] \<Longrightarrow> last s = d \<Longrightarrow> \<exists>fs. fs \<noteq> [] \<and> split_on d s = fs @ [[]]"
proof (induction s)
  case Nil
  then show ?case by simp
next
  case (Cons c cs)
  show ?case
  proof (cases "cs = []")
    case True
    with Cons.prems have "split_on d (c # cs) = [[]] @ [[]]" by simp
    then show ?thesis by blast
  next
    case False
    with Cons obtain fs where fs: "fs \<noteq> []" "split_on d cs = fs @ [[]]" by auto
    then obtain f fs' where f: "fs = f # fs'" by (cases fs) auto
    show ?thesis
    proof (cases "c = d")
      case True
      then have "split_on d (c # cs) = ([] # fs) @ [[]]" using fs by simp
      then show ?thesis by blast
    next
      case False
      then have "split_on d (c # cs) = ((c # f) # fs') @ [[]]" using fs f by simp
      then show ?thesis by blast
    qed
  qed
qed

lemma replace_all_keeps_final:
  assumes nil: "m [] = None"
    and len: "\<And>t k. t \<noteq> [] \<Longrightarrow> last t = 10 \<Longrightarrow> m t = Some (Suc k) \<Longrightarrow>
                Suc k < length t \<or> (rep \<noteq> [] \<and> last rep = 10)"
  shows "s \<noteq> [] \<Longrightarrow> last s = 10 \<Longrightarrow>
    replace_all m rep s \<noteq> [] \<and> last (replace_all m rep s) = 10"
proof (induction "length s" arbitrary: s rule: less_induct)
  case less
  then obtain c cs where s: "s = c # cs" by (cases s) auto
  have tail: "replace_all m rep (c # cs) = pre @ c # replace_all m rep cs \<Longrightarrow>
      replace_all m rep (c # cs) \<noteq> [] \<and> last (replace_all m rep (c # cs)) = 10" for pre
  proof (cases "cs = []")
    case True
    assume "replace_all m rep (c # cs) = pre @ c # replace_all m rep cs"
    then show ?thesis using True less.prems s nil by simp
  next
    case False
    assume eq: "replace_all m rep (c # cs) = pre @ c # replace_all m rep cs"
    have "replace_all m rep cs \<noteq> [] \<and> last (replace_all m rep cs) = 10"
      using less.hyps [of cs] less.prems s False by simp
    then show ?thesis using eq by simp
  qed
  show ?case
  proof (cases "m (c # cs)")
    case None
    then have "replace_all m rep (c # cs) = [] @ c # replace_all m rep cs" by (simp add: replace_all_Cons)
    then show ?thesis unfolding s by (rule tail)
  next
    case (Some n)
    show ?thesis
    proof (cases n)
      case 0
      then have "replace_all m rep (c # cs) = rep @ c # replace_all m rep cs"
        using Some by (simp add: replace_all_Cons)
      then show ?thesis unfolding s by (rule tail)
    next
      case (Suc k)
      have eq: "replace_all m rep (c # cs) = rep @ replace_all m rep (drop k cs)"
        using Some Suc by (simp add: replace_all_Cons)
      show ?thesis
      proof (cases "k < length cs")
        case True
        then have "drop k cs \<noteq> []" and "last (drop k cs) = 10"
          using less.prems s by (auto simp: last_drop split: if_splits)
        then have "replace_all m rep (drop k cs) \<noteq> [] \<and>
            last (replace_all m rep (drop k cs)) = 10"
          using less.hyps [of "drop k cs"] s by simp
        then show ?thesis unfolding s using eq by simp
      next
        case False
        then have "rep \<noteq> [] \<and> last rep = 10"
          using len [of "c # cs" k] less.prems s Some Suc by auto
        moreover have "replace_all m rep (drop k cs) = []" using False nil by simp
        ultimately show ?thesis unfolding s using eq by simp
      qed
    qed
  qed
qed

lemma m_csi_short:
  assumes "t \<noteq> []" and "last t = 10" and "m_csi t = Some n"
  shows "n < length t"
proof -
  from assms(3) obtain e b rest l tl where t: "t = e # b # rest"
    and d: "dropWhile isParam rest = l # tl" and l: "isAlpha l"
    and n: "n = 3 + length (takeWhile isParam rest)"
    by (auto simp: m_csi_def split: list.splits if_splits)
  have rest: "rest = takeWhile isParam rest @ l # tl" using d by (rule dropWhile_split)
  have "tl \<noteq> []"
  proof
    assume "tl = []"
    then have "last t = l" using t rest by (metis last.simps last_appendR list.distinct(1) snoc_eq_iff_butlast)
    with assms(2) l show False by (simp add: isAlpha_def)
  qed
  then have "length rest > length (takeWhile isParam rest) + 1"
    using arg_cong [OF rest, of length] by (cases tl) auto
  then show ?thesis using t n by simp
qed


lemma m_osc_short:
  assumes "t \<noteq> []" and "last t = 10" and "m_osc t = Some n"
  shows "n < length t"
proof -
  from assms(3) obtain e b rest sc rest2 bel tl where t: "t = e # b # rest"
    and d1: "dropWhile isDigit rest = sc # rest2"
    and d2: "dropWhile (\<lambda>c. c \<noteq> 7) rest2 = bel # tl"
    and n: "n = 4 + length (takeWhile isDigit rest) + length (takeWhile (\<lambda>c. c \<noteq> 7) rest2)"
    by (auto simp: m_osc_def split: list.splits if_splits)
  have rest: "rest = takeWhile isDigit rest @ sc # rest2" using d1 by (rule dropWhile_split)
  have rest2: "rest2 = takeWhile (\<lambda>c. c \<noteq> 7) rest2 @ bel # tl" using d2 by (rule dropWhile_split)
  have bel: "bel = 7" using hd_dropWhile [of "\<lambda>c. c \<noteq> 7" rest2] d2 by simp
  have "tl \<noteq> []"
  proof
    assume "tl = []"
    then have "last rest2 = bel" using rest2 by (metis last_snoc)
    moreover have "rest2 \<noteq> []" using rest2 by auto
    ultimately have "last rest = bel" using rest by (metis last_appendR last_ConsR list.distinct(1))
    moreover have "rest \<noteq> []" using rest by auto
    ultimately have "last t = bel" using t by simp
    with assms(2) bel show False by simp
  qed
  then have "length rest2 > length (takeWhile (\<lambda>c. c \<noteq> 7) rest2) + 1"
    using arg_cong [OF rest2, of length] by (cases tl) auto
  moreover have "length rest = length (takeWhile isDigit rest) + 1 + length rest2"
    using arg_cong [OF rest, of length] by simp
  ultimately show ?thesis using t n by simp
qed

lemma m_esc2_short:
  assumes "t \<noteq> []" and "last t = 10" and "m_esc2 t = Some n"
  shows "n < length t"
  using assms by (auto simp: m_esc2_def split: list.splits if_splits)

lemma m_class_short:
  assumes "\<not> P 10" and "t \<noteq> []" and "last t = 10" and "m_class P t = Some n"
  shows "n < length t"
  using assms by (auto simp: m_class_def split: list.splits if_splits)

lemma m_spaces_short:
  assumes "t \<noteq> []" and "last t = 10" and "m_spaces t = Some n"
  shows "n < length t"
proof -
  have "last t \<in> set t" using assms(1) by simp
  then have "length (takeWhile isSpaceTab t) < length t"
    by (rule takeWhile_shorter) (simp add: assms(2) isSpaceTab_def)
  then show ?thesis using assms(3) by (auto simp: m_spaces_def Let_def split: if_splits)
qed

lemma m_trailing_short:
  assumes "t \<noteq> []" and "last t = 10" and "m_trailing t = Some n"
  shows "n < length t"
proof -
  have "last t \<in> set t" using assms(1) by simp
  then have "length (takeWhile (\<lambda>c. c = 32) t) < length t"
    by (rule takeWhile_shorter) (simp add: assms(2))
  then show ?thesis
    using assms(3) by (auto simp: m_trailing_def Let_def split: if_splits list.splits)
qed

lemma stripAnsiCodes_keeps_final:
  assumes "text \<noteq> []" and "last text = 10"
  shows "stripAnsiCodes text \<noteq> [] \<and> last (stripAnsiCodes text) = 10"
proof -
  define t1 where "t1 = replace_all m_csi [] text"
  define t2 where "t2 = replace_all m_osc [] t1"
  define t3 where "t3 = replace_all m_esc2 [] t2"
  define t4 where "t4 = replace_all (m_class isBsDel) [] t3"
  define t5 where "t5 = replace_all m_crlf [10] t4"
  define t6 where "t6 = replace_all (m_class (\<lambda>c. c = 13)) [] t5"
  define t7 where "t7 = replace_all (m_class (\<lambda>c. c = 7)) [] t6"
  define t8 where "t8 = replace_all (m_class isOtherControl) [] t7"
  define t9 where "t9 = replace_all m_spaces [32] t8"
  define t10 where "t10 = replace_all m_trailing [] t9"
  have 1: "t1 \<noteq> [] \<and> last t1 = 10" unfolding t1_def
    using assms by (intro replace_all_keeps_final) (auto simp: m_Nil dest: m_csi_short)
  then have 2: "t2 \<noteq> [] \<and> last t2 = 10" unfolding t2_def
    by (intro replace_all_keeps_final) (auto simp: m_Nil dest: m_osc_short)
  then have 3: "t3 \<noteq> [] \<and> last t3 = 10" unfolding t3_def
    by (intro replace_all_keeps_final) (auto simp: m_Nil dest: m_esc2_short)
  then have 4: "t4 \<noteq> [] \<and> last t4 = 10" unfolding t4_def
    by (intro replace_all_keeps_final)
      (auto simp: m_class_def isBsDel_def dest: m_class_short [rotated])
  then have 5: "t5 \<noteq> [] \<and> last t5 = 10" unfolding t5_def
    by (intro replace_all_keeps_final) (auto simp: m_Nil)
  then have 6: "t6 \<noteq> [] \<and> last t6 = 10" unfolding t6_def
    by (intro replace_all_keeps_final) (auto simp: m_class_def dest: m_class_short [rotated])
  then have 7: "t7 \<noteq> [] \<and> last t7 = 10" unfolding t7_def
    by (intro replace_all_keeps_final) (auto simp: m_class_def dest: m_class_short [rotated])
  then have 8: "t8 \<noteq> [] \<and> last t8 = 10" unfolding t8_def
    by (intro replace_all_keeps_final)
      (auto simp: m_class_def isOtherControl_def dest: m_class_short [rotated])
  then have 9: "t9 \<noteq> [] \<and> last t9 = 10" unfolding t9_def
    by (intro replace_all_keeps_final) (auto simp: m_spaces_Nil dest: m_spaces_short)
  then have "t10 \<noteq> [] \<and> last t10 = 10" unfolding t10_def
    by (intro replace_all_keeps_final) (auto simp: m_trailing_Nil dest: m_trailing_short)
  moreover have "stripAnsiCodes text = t10"
    by (simp add: stripAnsiCodes_def t1_def t2_def t3_def t4_def t5_def t6_def t7_def t8_def
        t9_def t10_def)
  ultimately show ?thesis by simp
qed


lemma addRawOutput_line_blank:
  "trim line = [] \<Longrightarrow>
   addRawOutput_line text n i line out =
     (if Suc i \<noteq> n then out @ [(RawOutput, MinimalSpacer)] else out)"
  by (simp add: addRawOutput_line_def processTerminalLine_blank addFormattedOutput_def trim_def)

lemma addRawOutput_at:
  assumes "split_on 10 (stripAnsiCodes text) = xs @ l # ys"
  shows "addRawOutput text out =
     addRawOutput_loop text (length (xs @ l # ys)) (Suc (length xs)) ys
       (addRawOutput_line text (length (xs @ l # ys)) (length xs) l
          (addRawOutput_loop text (length (xs @ l # ys)) 0 xs out))"
  by (simp add: addRawOutput_def assms addRawOutput_loop_append)

lemma raw_examples:
  "stripAnsiCodes (str ''a'' @ [10, 10] @ str ''b'') = str ''a'' @ [10, 10] @ str ''b''"
  "stripAnsiCodes (str ''a'' @ [10, 32, 7]) = str ''a'' @ [10]"
  "stripAnsiCodes (str ''a'' @ [10]) = str ''a'' @ [10]"
  by (simp_all add: str_def sanitize_eval class_eval)

lemma raw_splits:
  "split_on 10 (str ''a'' @ [10, 10] @ str ''b'') = [str ''a''] @ [] # [str ''b'']"
  "split_on 10 (str ''a'' @ [10]) = [str ''a''] @ [[]]"
  by (simp_all add: str_def)

lemma raw_line_a:
  "addRawOutput_line text n i (str ''a'') out = out @ [(RawOutput, TextContent (str ''a''))]"
  "addRawOutput_line text n i (str ''b'') out = out @ [(RawOutput, TextContent (str ''b''))]"
  by (simp_all add: addRawOutput_line_def processTerminalLine_def addFormattedOutput_def
      classify_eval string_eval)

lemma final_fragment_example:
  "addRawOutput (str ''a'' @ [10]) [] = [(RawOutput, TextContent (str ''a''))]"
proof -
  have "split_on 10 (stripAnsiCodes (str ''a'' @ [10])) = [str ''a''] @ [] # []"
    by (simp only: raw_examples raw_splits)
  then have "addRawOutput (str ''a'' @ [10]) [] =
      addRawOutput_loop (str ''a'' @ [10]) (length ([str ''a''] @ [] # [])) (Suc (length [str ''a'']))
        []
        (addRawOutput_line (str ''a'' @ [10]) (length ([str ''a''] @ [] # [])) (length [str ''a''])
           [] (addRawOutput_loop (str ''a'' @ [10]) (length ([str ''a''] @ [] # [])) 0 [str ''a''] []))"
    by (rule addRawOutput_at)
  then show ?thesis by (simp add: raw_line_a addRawOutput_line_blank trim_def)
qed

text \<open>
  Claim C8.  A line of the sanitized chunk that is empty after trimming is forwarded as a
  minimal-height spacer: every blank fragment that a line feed follows gets one.  The
  last fragment, which no line feed follows, is dropped when it is blank; this is the
  last fragment of a chunk that does not end in a line terminator.  When the chunk ends
  in a line feed, its lines are the fragments before the last one, and the last fragment
  is the empty rest behind the final line feed, for which nothing is forwarded.
\<close>

theorem blank_line_spacer:
  "(split_on 10 (stripAnsiCodes text1) = xs1 @ l1 # ys1 \<and> trim l1 = [] \<and> ys1 \<noteq> [] \<longrightarrow>
      addRawOutput text1 out1 =
        addRawOutput_loop text1 (length (xs1 @ l1 # ys1)) (Suc (length xs1)) ys1
          (addRawOutput_loop text1 (length (xs1 @ l1 # ys1)) 0 xs1 out1 @
           [(RawOutput, MinimalSpacer)])) \<and>
   (split_on 10 (stripAnsiCodes text2) = xs2 @ [l2] \<and> trim l2 = [] \<longrightarrow>
      addRawOutput text2 out2 = addRawOutput_loop text2 (length (xs2 @ [l2])) 0 xs2 out2) \<and>
   (endsWith text3 [10] \<longrightarrow>
      (\<exists>fs. fs \<noteq> [] \<and> split_on 10 (stripAnsiCodes text3) = fs @ [[]]))"
proof -
  have 1: "split_on 10 (stripAnsiCodes text1) = xs1 @ l1 # ys1 \<and> trim l1 = [] \<and> ys1 \<noteq> [] \<longrightarrow>
      addRawOutput text1 out1 =
        addRawOutput_loop text1 (length (xs1 @ l1 # ys1)) (Suc (length xs1)) ys1
          (addRawOutput_loop text1 (length (xs1 @ l1 # ys1)) 0 xs1 out1 @
           [(RawOutput, MinimalSpacer)])"
  proof
    assume h: "split_on 10 (stripAnsiCodes text1) = xs1 @ l1 # ys1 \<and> trim l1 = [] \<and> ys1 \<noteq> []"
    then have "Suc (length xs1) \<noteq> length (xs1 @ l1 # ys1)" by simp
    then show "addRawOutput text1 out1 =
        addRawOutput_loop text1 (length (xs1 @ l1 # ys1)) (Suc (length xs1)) ys1
          (addRawOutput_loop text1 (length (xs1 @ l1 # ys1)) 0 xs1 out1 @
           [(RawOutput, MinimalSpacer)])"
      using h addRawOutput_at [of text1 xs1 l1 ys1 out1]
      by (simp add: addRawOutput_line_blank)
  qed
  have 2: "split_on 10 (stripAnsiCodes text2) = xs2 @ [l2] \<and> trim l2 = [] \<longrightarrow>
      addRawOutput text2 out2 = addRawOutput_loop text2 (length (xs2 @ [l2])) 0 xs2 out2"
  proof
    assume h: "split_on 10 (stripAnsiCodes text2) = xs2 @ [l2] \<and> trim l2 = []"
    then show "addRawOutput text2 out2 =
        addRawOutput_loop text2 (length (xs2 @ [l2])) 0 xs2 out2"
      using addRawOutput_at [of text2 xs2 l2 "[]" out2]
      by (simp add: addRawOutput_line_blank)
  qed
  have 3: "endsWith text3 [10] \<longrightarrow>
      (\<exists>fs. fs \<noteq> [] \<and> split_on 10 (stripAnsiCodes text3) = fs @ [[]])"
  proof
    assume "endsWith text3 [10]"
    then have "text3 \<noteq> []" and "last text3 = 10" by (simp_all add: endsWith_single)
    then have "stripAnsiCodes text3 \<noteq> [] \<and> last (stripAnsiCodes text3) = 10"
      by (rule stripAnsiCodes_keeps_final)
    then show "\<exists>fs. fs \<noteq> [] \<and> split_on 10 (stripAnsiCodes text3) = fs @ [[]]"
      by (intro split_on_final) simp_all
  qed
  from 1 2 3 show ?thesis by (intro conjI)
qed

text \<open>Claim C8 at a blank line between two lines, at a blank last fragment of a chunk that
  does not end in a line feed, and at a chunk that ends in one.\<close>

theorem blank_line_spacer_witness:
  "split_on 10 (stripAnsiCodes (str ''a'' @ [10, 10] @ str ''b'')) = [str ''a''] @ [] # [str ''b''] \<and>
   trim [] = [] \<and>
   addRawOutput (str ''a'' @ [10, 10] @ str ''b'') [] =
     [(RawOutput, TextContent (str ''a'')), (RawOutput, MinimalSpacer),
      (RawOutput, TextContent (str ''b''))] \<and>
   \<not> endsWith (str ''a'' @ [10, 32, 7]) [10] \<and>
   split_on 10 (stripAnsiCodes (str ''a'' @ [10, 32, 7])) = [str ''a''] @ [[]] \<and>
   addRawOutput (str ''a'' @ [10, 32, 7]) [] = [(RawOutput, TextContent (str ''a''))] \<and>
   endsWith (str ''a'' @ [10]) [10] \<and>
   split_on 10 (stripAnsiCodes (str ''a'' @ [10])) = [str ''a''] @ [[]]"
proof -
  note T = blank_line_spacer [of "str ''a'' @ [10, 10] @ str ''b''" "[str ''a'']" "[]"
      "[str ''b'']" "[]" "str ''a'' @ [10, 32, 7]" "[str ''a'']" "[]" "[]" "str ''a'' @ [10]"]
  have a: "split_on 10 (stripAnsiCodes (str ''a'' @ [10, 10] @ str ''b'')) =
      [str ''a''] @ [] # [str ''b'']"
    by (simp only: raw_examples raw_splits)
  have b: "trim [] = []" by (simp add: trim_def)
  have c: "split_on 10 (stripAnsiCodes (str ''a'' @ [10, 32, 7])) = [str ''a''] @ [[]]"
    by (simp only: raw_examples raw_splits)
  have d: "split_on 10 (stripAnsiCodes (str ''a'' @ [10])) = [str ''a''] @ [[]]"
    by (simp only: raw_examples raw_splits)
  have e: "endsWith (str ''a'' @ [10]) [10]" "\<not> endsWith (str ''a'' @ [10, 32, 7]) [10]"
    by (simp_all add: endsWith_single)
  from T a b have "addRawOutput (str ''a'' @ [10, 10] @ str ''b'') [] =
      addRawOutput_loop (str ''a'' @ [10, 10] @ str ''b'')
        (length ([str ''a''] @ [] # [str ''b''])) (Suc (length [str ''a''])) [str ''b'']
        (addRawOutput_loop (str ''a'' @ [10, 10] @ str ''b'')
           (length ([str ''a''] @ [] # [str ''b''])) 0 [str ''a''] [] @
         [(RawOutput, MinimalSpacer)])"
    by blast
  then have f: "addRawOutput (str ''a'' @ [10, 10] @ str ''b'') [] =
     [(RawOutput, TextContent (str ''a'')), (RawOutput, MinimalSpacer),
      (RawOutput, TextContent (str ''b''))]"
    by (simp add: raw_line_a)
  from T c b have "addRawOutput (str ''a'' @ [10, 32, 7]) [] =
      addRawOutput_loop (str ''a'' @ [10, 32, 7]) (length ([str ''a''] @ [[]])) 0 [str ''a''] []"
    by blast
  then have g: "addRawOutput (str ''a'' @ [10, 32, 7]) [] = [(RawOutput, TextContent (str ''a''))]"
    by (simp add: raw_line_a)
  from a b c d e f g show ?thesis by blast
qed

end
